(* ===== verification/Prelude.thy ===== *)
theory Prelude
  imports Complex_Main "HOL-Library.AList" "HOL-Library.Multiset"
begin

text \<open>
  Shared vocabulary of the development.  The client keeps its entities in plain
  JavaScript objects keyed by string ids (\<open>frontEndPlayers\<close>,
  \<open>frontEndProjectiles\<close> in \<open>src/public/js/frontend.js\<close>) and receives the
  server's snapshots as parsed JSON objects.  A JavaScript object with
  non-numeric string keys is an insertion-ordered map, so it is modelled as an
  association list: reading \<open>obj[k]\<close> is \<^const>\<open>map_of\<close>, assigning
  \<open>obj[k] = v\<close> is \<^const>\<open>AList.update\<close> (replace in place, or append a new
  key at the end), \<open>delete obj[k]\<close> is \<^const>\<open>AList.delete\<close>, and
  \<open>for (k in obj)\<close> iterates over \<open>map fst obj\<close>.  Numbers are JavaScript
  doubles; coordinates are modelled as \<^typ>\<open>real\<close> (exact arithmetic),
  sequence numbers as \<^typ>\<open>nat\<close> and scores as \<^typ>\<open>int\<close>.
\<close>

named_theorems js_object_simps "characteristic equations of the object model"

type_synonym ident = string

type_synonym 'v js_object = "(ident \<times> 'v) list"

type_synonym point = "real \<times> real"

text \<open>The keys of an object, in iteration order, and well-formedness (no key twice).\<close>

abbreviation js_keys :: "'v js_object \<Rightarrow> ident list" where
  "js_keys obj \<equiv> map fst obj"

abbreviation js_wf :: "'v js_object \<Rightarrow> bool" where
  "js_wf obj \<equiv> distinct (js_keys obj)"

text \<open>The JavaScript runtime errors the handlers can raise.\<close>

datatype js_error = TypeError

subsection \<open>Association lists as objects\<close>

text \<open>The lemmas are stated in the simplifier's normal form (\<open>fst ` set obj\<close>,
  \<open>image_mset fst (mset obj)\<close>) so that they apply after \<open>set_map\<close> and
  \<open>mset_map\<close> have rewritten \<^term>\<open>js_keys\<close>.\<close>

lemmas map_of_None_iff [js_object_simps] = map_of_eq_None_iff

lemma map_of_Some_key: "map_of obj k = Some v \<Longrightarrow> k \<in> fst ` set obj"
  by (metis map_of_SomeD fst_conv image_eqI)

lemma update_absent [simp, js_object_simps]:
  "k \<notin> fst ` set obj \<Longrightarrow> AList.update k v obj = obj @ [(k, v)]"
  by (induction obj) auto

lemma keys_update_present:
  "k \<in> fst ` set obj \<Longrightarrow> map fst (AList.update k v obj) = map fst obj"
  by (induction obj) auto

lemma set_keys_update [simp, js_object_simps]:
  "fst ` set (AList.update k v obj) = insert k (fst ` set obj)"
  using AList.dom_update [of k v obj] by auto

lemma mset_keys_update_present [simp, js_object_simps]:
  assumes "k \<in> fst ` set obj"
  shows "image_mset fst (mset (AList.update k v obj)) = image_mset fst (mset obj)"
proof -
  have "mset (map fst (AList.update k v obj)) = mset (map fst obj)"
    using keys_update_present [OF assms] by (rule arg_cong)
  then show ?thesis by simp
qed

lemma distinct_keys_update [simp]:
  "js_wf obj \<Longrightarrow> js_wf (AList.update k v obj)"
  by (rule AList.distinct_update)

lemma keys_filter_distinct [simp]:
  "js_wf obj \<Longrightarrow> js_wf (filter P obj)"
  by (induction obj) (auto simp: image_iff)

lemma map_of_filter_keys:
  "map_of (filter (\<lambda>e. P (fst e)) obj) k = (if P k then map_of obj k else None)"
  by (induction obj) auto

lemma set_keys_filter_keys [simp, js_object_simps]:
  "fst ` set (filter (\<lambda>e. P (fst e)) obj) = {k \<in> fst ` set obj. P k}"
  by (induction obj) auto

subsection \<open>Lists\<close>

lemma drop_self_ex [simp]: "\<exists>k. xs = drop k xs"
  by (rule exI [of _ 0]) simp

lemmas alist_simps [js_object_simps] = AList.update_conv' AList.delete_conv'

lemma keys_delete: "js_keys (AList.delete k obj) = filter (\<lambda>x. x \<noteq> k) (js_keys obj)"
  by (induction obj) auto

text \<open>The element \<open>find\<close> returns heads the filter, on a list without duplicates.\<close>

lemma filter_find:
  "find P xs = Some k \<Longrightarrow> distinct xs \<Longrightarrow> filter P xs = k # filter (\<lambda>x. P x \<and> x \<noteq> k) xs"
proof (induction xs)
  case Nil
  then show ?case by simp
next
  case (Cons x xs)
  show ?case
  proof (cases "P x")
    case True
    then have "filter (\<lambda>y. P y \<and> y \<noteq> x) xs = filter P xs"
      using Cons.prems(2) by (auto intro: filter_cong)
    then show ?thesis using True Cons.prems(1) by simp
  next
    case False
    then show ?thesis using Cons by simp
  qed
qed

text \<open>A pair of the zipped lists gives an element of \<open>map2\<close>.\<close>

lemma in_set_map2I: "(a, b) \<in> set (zip xs ys) \<Longrightarrow> f a b \<in> set (map2 f xs ys)"
  by (force intro: rev_image_eqI)

text \<open>A sum over a list is the sum over the elements a filter keeps plus those it drops.\<close>

lemma sum_list_filter_split:
  fixes f :: "'a \<Rightarrow> 'b::comm_monoid_add"
  shows "sum_list (map f (filter P xs)) + sum_list (map f (filter (\<lambda>x. \<not> P x) xs)) = sum_list (map f xs)"
  by (induction xs) (simp_all add: add_ac)

text \<open>A sum over the elements two disjoint filters keep.\<close>

lemma sum_list_filter_disj:
  fixes f :: "'a \<Rightarrow> 'b::comm_monoid_add"
  assumes "\<And>x. P x \<Longrightarrow> \<not> Q x"
  shows "sum_list (map f (filter (\<lambda>x. P x \<or> Q x) xs)) =
         sum_list (map f (filter P xs)) + sum_list (map f (filter Q xs))"
  using assms by (induction xs) (auto simp: add_ac)

end
