(* ===== verification/Entities.thy ===== *)
theory Entities
  imports Prelude
begin

text \<open>
  The entity data of the client.  \<open>Player\<close> and \<open>Projectile\<close> are classes
  of the client that live outside \<open>src/\<close> (\<open>public/js/classes\<close>); their
  fields are the ones the constructor calls in \<open>frontend.js\<close> pass, plus the
  optional interpolation \<open>target\<close> the handlers assign.  The server payloads
  follow the wire protocol of \<open>updatePlayers\<close> and \<open>updateProjectiles\<close>.
\<close>

record player =
  player_x :: real
  player_y :: real
  player_radius :: real
  player_color :: string
  player_username :: string
  player_target :: "point option"

record projectile =
  proj_x :: real
  proj_y :: real
  proj_radius :: real
  proj_color :: "string option"
  proj_velocity :: point

record backend_player =
  bp_x :: real
  bp_y :: real
  bp_color :: string
  bp_username :: string
  bp_score :: int
  bp_sequenceNumber :: nat

record backend_projectile =
  bj_x :: real
  bj_y :: real
  bj_playerId :: ident
  bj_velocity :: point

text \<open>\<open>new Player({x, y, radius, color, username})\<close>: no target until the first update.\<close>

definition Player_new :: "real \<Rightarrow> real \<Rightarrow> real \<Rightarrow> string \<Rightarrow> string \<Rightarrow> player" where
  "Player_new x y r c u =
     \<lparr>player_x = x, player_y = y, player_radius = r, player_color = c,
      player_username = u, player_target = None\<rparr>"

text \<open>\<open>new Projectile({x, y, radius, color, velocity})\<close>; \<open>color\<close> may be \<open>undefined\<close>.\<close>

definition Projectile_new :: "real \<Rightarrow> real \<Rightarrow> real \<Rightarrow> string option \<Rightarrow> point \<Rightarrow> projectile" where
  "Projectile_new x y r c v =
     \<lparr>proj_x = x, proj_y = y, proj_radius = r, proj_color = c, proj_velocity = v\<rparr>"

end
