(* ===== verification/Reconcile.thy ===== *)
theory Reconcile
  imports Prelude
begin

text \<open>
  Client-side prediction and server reconciliation (\<open>frontend.js\<close>, the
  \<open>id === socket.id\<close> branch of the \<open>updatePlayers\<close> handler, lines 112--127).
  The pending-input log \<open>playerInputs\<close> holds \<open>{sequenceNumber, dx, dy}\<close>
  records.  On an authoritative update the log is searched with
  \<open>findIndex\<close> for the sequence number echoed by the server, the prefix up to
  and including that entry is removed with \<open>splice(0, i + 1)\<close>, and the
  remaining inputs are replayed onto the new target.
\<close>

record input =
  seq_no :: nat
  dx :: real
  dy :: real

text \<open>\<open>Array.prototype.findIndex\<close>: the first index whose element satisfies the
  predicate, or \<open>-1\<close>.\<close>

fun findIndex :: "('a \<Rightarrow> bool) \<Rightarrow> 'a list \<Rightarrow> int" where
  "findIndex P [] = -1"
| "findIndex P (x # xs) = (if P x then 0 else (let i = findIndex P xs in if i = -1 then -1 else i + 1))"

text \<open>\<open>xs.splice(0, n)\<close>, keeping what remains in the array.\<close>

definition splice0 :: "nat \<Rightarrow> 'a list \<Rightarrow> 'a list" where
  "splice0 n xs = drop n xs"

definition trim_inputs :: "nat \<Rightarrow> input list \<Rightarrow> input list" where
  "trim_inputs sn ins =
     (let i = findIndex (\<lambda>inp. sn = seq_no inp) ins
      in if i > -1 then splice0 (nat (i + 1)) ins else ins)"

text \<open>\<open>playerInputs.forEach(input => { target.x += input.dx; target.y += input.dy })\<close>\<close>

definition replay :: "input list \<Rightarrow> point \<Rightarrow> point" where
  "replay ins t = fold (\<lambda>inp (tx, ty). (tx + dx inp, ty + dy inp)) ins t"

definition reconcile :: "nat \<Rightarrow> point \<Rightarrow> input list \<Rightarrow> input list \<times> point" where
  "reconcile sn t ins = (let ins' = trim_inputs sn ins in (ins', replay ins' t))"

text \<open>The order the log is kept in: sequence numbers strictly increasing.\<close>

abbreviation inputs_ordered :: "input list \<Rightarrow> bool" where
  "inputs_ordered ins \<equiv> sorted_wrt (<) (map seq_no ins)"

subsection \<open>findIndex\<close>

lemma findIndex_ge: "-1 \<le> findIndex P xs"
  by (induction xs) (auto simp: Let_def)

lemma findIndex_none: "(\<forall>x\<in>set xs. \<not> P x) \<Longrightarrow> findIndex P xs = -1"
  by (induction xs) auto

lemma findIndex_first:
  "\<forall>x\<in>set pre. \<not> P x \<Longrightarrow> P a \<Longrightarrow> findIndex P (pre @ a # post) = int (length pre)"
  by (induction pre) (auto simp: Let_def)

subsection \<open>Trimming the log\<close>

lemma trim_inputs_prefix:
  assumes "ins = pre @ inp # post" "seq_no inp = sn" "sn \<notin> seq_no ` set pre"
  shows "trim_inputs sn ins = post"
proof -
  have "findIndex (\<lambda>i. sn = seq_no i) ins = int (length pre)"
    using assms by (auto intro: findIndex_first)
  moreover have "nat (int (length pre) + 1) = Suc (length pre)" by simp
  ultimately show ?thesis
    using assms by (simp add: trim_inputs_def splice0_def)
qed

lemma trim_inputs_absent:
  "sn \<notin> seq_no ` set ins \<Longrightarrow> trim_inputs sn ins = ins"
  by (simp add: trim_inputs_def findIndex_none image_iff)

lemma trim_inputs_suffix: "\<exists>k. trim_inputs sn ins = drop k ins"
  by (auto simp: trim_inputs_def splice0_def Let_def intro: exI [of _ 0])

lemma split_at_seq:
  "sn \<in> seq_no ` set ins \<Longrightarrow>
   \<exists>pre inp post. ins = pre @ inp # post \<and> seq_no inp = sn \<and> sn \<notin> seq_no ` set pre"
  using split_list_first_prop [of ins "\<lambda>i. seq_no i = sn"] by fastforce

lemma ordered_split:
  "inputs_ordered (pre @ inp # post) \<Longrightarrow>
   filter (\<lambda>i. seq_no inp < seq_no i) (pre @ inp # post) = post"
  by (auto simp: sorted_wrt_append filter_empty_conv filter_id_conv)

lemma trim_inputs_filter:
  assumes "inputs_ordered ins" "sn \<in> seq_no ` set ins"
  shows "trim_inputs sn ins = filter (\<lambda>i. sn < seq_no i) ins"
proof -
  obtain pre inp post where split: "ins = pre @ inp # post" "seq_no inp = sn"
      "sn \<notin> seq_no ` set pre"
    using split_at_seq [OF assms(2)] by blast
  then have "trim_inputs sn ins = post" by (rule trim_inputs_prefix)
  moreover have "filter (\<lambda>i. sn < seq_no i) ins = post"
    using ordered_split [of pre inp post] assms(1) split by simp
  ultimately show ?thesis by simp
qed

lemma trim_inputs_ordered: "inputs_ordered ins \<Longrightarrow> inputs_ordered (trim_inputs sn ins)"
  using trim_inputs_suffix [of sn ins] by (auto simp: sorted_wrt_drop drop_map [symmetric])

subsection \<open>Replaying the log\<close>

lemma replay_append: "replay (xs @ ys) t = replay ys (replay xs t)"
  by (simp add: replay_def)

lemma replay_sum:
  "replay ins (tx, ty) = (tx + sum_list (map dx ins), ty + sum_list (map dy ins))"
  by (induction ins arbitrary: tx ty) (simp_all add: replay_def algebra_simps)

subsection \<open>Properties of the reconciliation\<close>

text \<open>C1. On a pending log ordered by sequence number that contains the number
  the server acknowledged, reconciliation keeps exactly the inputs numbered above
  it, in their order, and the new target is the authoritative position plus the
  displacements of those inputs.\<close>

theorem reconcile_ordered_log:
  assumes "inputs_ordered ins" "sn \<in> seq_no ` set ins"
  shows "reconcile sn (x, y) ins =
           (let rest = filter (\<lambda>i. sn < seq_no i) ins
            in (rest, (x + sum_list (map dx rest), y + sum_list (map dy rest))))"
  using trim_inputs_filter [OF assms] by (simp add: reconcile_def replay_sum Let_def)

theorem reconcile_ordered_log_witness:
  "inputs_ordered [\<lparr>seq_no = 4, dx = 1, dy = 0\<rparr>, \<lparr>seq_no = 7, dx = 0, dy = 2\<rparr>] \<and>
   (4::nat) \<in> seq_no ` set [\<lparr>seq_no = 4, dx = 1, dy = 0\<rparr>, \<lparr>seq_no = 7, dx = 0, dy = 2\<rparr>] \<and>
   reconcile 4 (10, 20) [\<lparr>seq_no = 4, dx = 1, dy = 0\<rparr>, \<lparr>seq_no = 7, dx = 0, dy = 2\<rparr>] =
     ([\<lparr>seq_no = 7, dx = 0, dy = 2\<rparr>], (10, 22))"
proof -
  let ?ins = "[\<lparr>seq_no = 4, dx = 1, dy = 0\<rparr>, \<lparr>seq_no = 7, dx = 0 :: real, dy = 2\<rparr>]"
  have h1: "inputs_ordered ?ins" by simp
  have h2: "(4::nat) \<in> seq_no ` set ?ins" by simp
  show ?thesis using reconcile_ordered_log [OF h1 h2, of 10 20] h1 h2 by simp
qed

text \<open>C2. For any pending log, ordered or not: if the first entry carrying the
  acknowledged number is \<open>inp\<close> in \<open>pre @ inp # post\<close>, reconciliation
  discards exactly \<open>pre\<close> and \<open>inp\<close> (never more, never less) and replays
  \<open>post\<close> in its original order onto the authoritative position.\<close>

theorem reconcile_discards_acknowledged_prefix:
  assumes "ins = pre @ inp # post" "seq_no inp = sn" "sn \<notin> seq_no ` set pre"
  shows "reconcile sn t ins = (post, fold (\<lambda>i (tx, ty). (tx + dx i, ty + dy i)) post t)"
  using trim_inputs_prefix [OF assms] by (simp add: reconcile_def replay_def)

theorem reconcile_discards_acknowledged_prefix_witness:
  "[\<lparr>seq_no = 9, dx = 1, dy = 1\<rparr>, \<lparr>seq_no = 3, dx = 0, dy = 0\<rparr>, \<lparr>seq_no = 5, dx = 2, dy = 0\<rparr>] =
     [\<lparr>seq_no = 9, dx = 1, dy = 1\<rparr>] @ \<lparr>seq_no = 3, dx = 0, dy = 0\<rparr> # [\<lparr>seq_no = 5, dx = 2, dy = 0\<rparr>] \<and>
   seq_no \<lparr>seq_no = 3, dx = 0 :: real, dy = 0 :: real\<rparr> = 3 \<and>
   (3::nat) \<notin> seq_no ` set [\<lparr>seq_no = 9, dx = 1 :: real, dy = 1 :: real\<rparr>] \<and>
   reconcile 3 (0, 0)
     [\<lparr>seq_no = 9, dx = 1, dy = 1\<rparr>, \<lparr>seq_no = 3, dx = 0, dy = 0\<rparr>, \<lparr>seq_no = 5, dx = 2, dy = 0\<rparr>] =
     ([\<lparr>seq_no = 5, dx = 2, dy = 0\<rparr>], (2, 0))"
proof -
  let ?pre = "[\<lparr>seq_no = 9, dx = 1 :: real, dy = 1 :: real\<rparr>]"
  let ?inp = "\<lparr>seq_no = 3, dx = 0 :: real, dy = 0 :: real\<rparr>"
  let ?post = "[\<lparr>seq_no = 5, dx = 2 :: real, dy = 0 :: real\<rparr>]"
  have h1: "?pre @ ?inp # ?post = ?pre @ ?inp # ?post" by (rule refl)
  have h2: "seq_no ?inp = 3" by simp
  have h3: "(3::nat) \<notin> seq_no ` set ?pre" by simp
  show ?thesis using reconcile_discards_acknowledged_prefix [OF h1 h2 h3, of "(0, 0)"] by simp
qed

text \<open>C3. When the acknowledged number is not in the log (a snapshot sent before
  the server processed any of the pending inputs), nothing is trimmed and the whole
  log is replayed onto the authoritative position.\<close>

theorem reconcile_unacknowledged:
  assumes "sn \<notin> seq_no ` set ins"
  shows "reconcile sn (x, y) ins = (ins, (x + sum_list (map dx ins), y + sum_list (map dy ins)))"
  using trim_inputs_absent [OF assms] by (simp add: reconcile_def replay_sum)

theorem reconcile_unacknowledged_witness:
  "(0::nat) \<notin> seq_no ` set [\<lparr>seq_no = 1, dx = 0 :: real, dy = -5 :: real\<rparr>] \<and>
   reconcile 0 (100, 100) [\<lparr>seq_no = 1, dx = 0, dy = -5\<rparr>] = ([\<lparr>seq_no = 1, dx = 0, dy = -5\<rparr>], (100, 95))"
proof -
  have h: "(0::nat) \<notin> seq_no ` set [\<lparr>seq_no = 1, dx = 0 :: real, dy = -5 :: real\<rparr>]" by simp
  show ?thesis using reconcile_unacknowledged [OF h, of 100 100] h by simp
qed

end
