(* ===== verification/JsLib.thy ===== *)
theory JsLib
  imports Prelude
begin

text \<open>
  The JavaScript built-ins the scoreboard code of \<open>frontend.js\<close> relies on.
  A score reaches the DOM as a string: the template literal
  \<open>data-score="${backEndPlayer.score}"\<close> (line 75) and
  \<open>setAttribute('data-score', backEndPlayer.score)\<close> (line 84) render the
  number with \<open>ToString\<close>, which for an integer is its decimal numeral with a
  leading \<open>-\<close> when negative (\<open>string_of_int\<close>).  The comparator
  of the sort reads it back with \<open>Number(a.getAttribute('data-score'))\<close>
  (lines 91--92), modelled by \<open>js_Number\<close> on the strings of an optional
  sign and decimal digits, and on the empty string (which \<open>Number\<close> maps to
  0); every other string is \<^const>\<open>None\<close>, standing for \<open>NaN\<close> (fractions,
  exponents, surrounding blanks and hexadecimal literals are not modelled: the
  attribute never holds one).  \<open>Array.prototype.sort\<close> with a comparator
  is stable (ECMAScript 2019 on); for a comparator that is a consistent order its
  result is the stable insertion sort \<open>js_sort\<close>, an element going
  before another when the comparator returns a value \<open>\<le> 0\<close>.
\<close>

text \<open>Decimal rendering of a non-negative integer, most significant digit first.\<close>

fun string_of_nat :: "nat \<Rightarrow> string" where
  "string_of_nat n =
     (if n < 10 then [char_of (48 + n)]
      else string_of_nat (n div 10) @ [char_of (48 + n mod 10)])"

declare string_of_nat.simps [simp del]

definition string_of_int :: "int \<Rightarrow> string" where
  "string_of_int i = (if i < 0 then ''-'' @ string_of_nat (nat (- i)) else string_of_nat (nat i))"

text \<open>\<open>Number(s)\<close> on decimal integer literals.\<close>

definition digit_val :: "char \<Rightarrow> nat option" where
  "digit_val c = (let n = (of_char c :: nat) in if 48 \<le> n \<and> n \<le> 57 then Some (n - 48) else None)"

fun parse_digits :: "nat \<Rightarrow> string \<Rightarrow> nat option" where
  "parse_digits acc [] = Some acc"
| "parse_digits acc (c # cs) =
     (case digit_val c of None \<Rightarrow> None | Some d \<Rightarrow> parse_digits (10 * acc + d) cs)"

definition js_Number :: "string \<Rightarrow> int option" where
  "js_Number s =
     (if s = [] then Some 0
      else if hd s = CHR ''-'' then
        (if tl s = [] then None else map_option (\<lambda>n. - int n) (parse_digits 0 (tl s)))
      else if hd s = CHR ''+'' then
        (if tl s = [] then None else map_option int (parse_digits 0 (tl s)))
      else map_option int (parse_digits 0 s))"

text \<open>\<open>Array.prototype.sort(comparefn)\<close>: stable insertion of each element
  before the first one it does not compare above.\<close>

fun js_insort :: "('a \<Rightarrow> 'a \<Rightarrow> int) \<Rightarrow> 'a \<Rightarrow> 'a list \<Rightarrow> 'a list" where
  "js_insort cmp x [] = [x]"
| "js_insort cmp x (y # ys) = (if cmp x y \<le> 0 then x # y # ys else y # js_insort cmp x ys)"

definition js_sort :: "('a \<Rightarrow> 'a \<Rightarrow> int) \<Rightarrow> 'a list \<Rightarrow> 'a list" where
  "js_sort cmp xs = foldr (js_insort cmp) xs []"

subsection \<open>Printing and parsing integers\<close>

lemma parse_digits_append:
  "parse_digits acc (xs @ ys) = (case parse_digits acc xs of None \<Rightarrow> None | Some a \<Rightarrow> parse_digits a ys)"
  by (induction xs arbitrary: acc) (simp_all split: option.split)

lemma digit_val_char_of: "d < 10 \<Longrightarrow> digit_val (char_of (48 + d)) = Some d"
  by (simp add: digit_val_def of_char_of)

lemma string_of_nat_digits: "c \<in> set (string_of_nat n) \<Longrightarrow> 48 \<le> (of_char c :: nat) \<and> (of_char c :: nat) \<le> 57"
proof (induction n rule: string_of_nat.induct)
  case (1 n)
  then show ?case
    by (cases "n < 10") (auto simp: string_of_nat.simps [of n] of_char_of)
qed

lemma string_of_nat_not_Nil [simp]: "string_of_nat n \<noteq> []"
  by (simp add: string_of_nat.simps [of n])

lemma parse_string_of_nat: "parse_digits 0 (string_of_nat n) = Some n"
proof (induction n rule: string_of_nat.induct)
  case (1 n)
  show ?case
  proof (cases "n < 10")
    case True
    then show ?thesis by (simp add: string_of_nat.simps [of n] digit_val_char_of)
  next
    case False
    then have "parse_digits 0 (string_of_nat n) = parse_digits (n div 10) [char_of (48 + n mod 10)]"
      using 1 by (simp add: string_of_nat.simps [of n] parse_digits_append)
    also have "\<dots> = Some n" by (simp add: digit_val_char_of)
    finally show ?thesis .
  qed
qed

lemma hd_string_of_nat: "hd (string_of_nat n) \<noteq> CHR ''-'' \<and> hd (string_of_nat n) \<noteq> CHR ''+''"
proof -
  have "hd (string_of_nat n) \<in> set (string_of_nat n)" by simp
  then have "48 \<le> (of_char (hd (string_of_nat n)) :: nat)" using string_of_nat_digits by blast
  then show ?thesis by auto
qed

lemma js_Number_string_of_nat: "js_Number (string_of_nat n) = Some (int n)"
  using hd_string_of_nat [of n] by (simp add: js_Number_def parse_string_of_nat)

lemma js_Number_neg_string_of_nat: "js_Number (CHR ''-'' # string_of_nat n) = Some (- int n)"
  by (simp add: js_Number_def parse_string_of_nat)

subsection \<open>The comparator sort\<close>

lemma js_insort_insort_key:
  "(\<And>x y. (cmp x y \<le> 0) = (f x \<le> f y)) \<Longrightarrow> js_insort cmp x ys = insort_key f x ys"
  by (induction ys) simp_all

lemma js_sort_sort_key:
  "(\<And>x y. (cmp x y \<le> 0) = (f x \<le> f y)) \<Longrightarrow> js_sort cmp xs = sort_key f xs"
  by (induction xs) (simp_all add: js_sort_def js_insort_insort_key)


end
