(* ===== verification/Scoreboard.thy ===== *)
theory Scoreboard
  imports JsLib
begin

text \<open>
  The scoreboard rows under \<open>#playerLabels\<close>, as the \<open>updatePlayers\<close>
  handler of \<open>frontend.js\<close> manipulates them.  A row is a
  \<open><div data-id data-score>username: score</div>\<close>; it is modelled by its
  id, the username and the score it shows (the \<open>data-score\<close> attribute is
  written from the score and read back with \<open>Number\<close>, which is the identity
  on the integer scores the server sends).  \<open>document.querySelector\<close> finds
  the first row with the id, or \<open>null\<close>; using \<open>null\<close> raises a
  \<^const>\<open>TypeError\<close>, which the row operations return as \<^const>\<open>None\<close>.
\<close>

record label =
  lbl_id :: ident
  lbl_username :: string
  lbl_score :: int

text \<open>\<open>#playerLabels.innerHTML += <div ...></div>\<close> (lines 73--75): a row appended.\<close>

definition label_add :: "ident \<Rightarrow> string \<Rightarrow> int \<Rightarrow> label list \<Rightarrow> label list" where
  "label_add pid u sc ls = ls @ [\<lparr>lbl_id = pid, lbl_username = u, lbl_score = sc\<rparr>]"

text \<open>Lines 78--84: the text and \<open>data-score\<close> of the first row with the id.\<close>

fun label_set :: "ident \<Rightarrow> string \<Rightarrow> int \<Rightarrow> label list \<Rightarrow> label list option" where
  "label_set pid u sc [] = None"
| "label_set pid u sc (l # ls) =
     (if lbl_id l = pid then Some (l\<lparr>lbl_username := u, lbl_score := sc\<rparr> # ls)
      else map_option (Cons l) (label_set pid u sc ls))"

text \<open>The \<open>data-score\<close> attribute of a row: the score as rendered by
  \<open>${backEndPlayer.score}\<close> (line 75) and by \<open>setAttribute\<close> (line 84).\<close>

definition data_score :: "label \<Rightarrow> string" where
  "data_score l = string_of_int (lbl_score l)"

text \<open>The comparator of lines 90--95: \<open>Number\<close> of both attributes,
  \<open>scoreB - scoreA\<close>; a \<open>NaN\<close> result compares as equal, as the sort's
  \<open>SortCompare\<close> maps \<open>NaN\<close> to \<open>+0\<close>.\<close>

definition score_cmp :: "label \<Rightarrow> label \<Rightarrow> int" where
  "score_cmp a b =
     (case (js_Number (data_score a), js_Number (data_score b)) of
        (Some sa, Some sb) \<Rightarrow> sb - sa
      | _ \<Rightarrow> 0)"

text \<open>Lines 87--105: \<open>childDivs.sort(score_cmp)\<close>; removing every row and
  re-appending them in that order leaves exactly the sorted list.\<close>

definition labels_sort :: "label list \<Rightarrow> label list" where
  "labels_sort ls = js_sort score_cmp ls"

text \<open>Lines 134--135: \<open>divToDelete.parentNode.removeChild(divToDelete)\<close>.\<close>

fun label_remove :: "ident \<Rightarrow> label list \<Rightarrow> label list option" where
  "label_remove pid [] = None"
| "label_remove pid (l # ls) =
     (if lbl_id l = pid then Some ls else map_option (Cons l) (label_remove pid ls))"

abbreviation label_ids :: "label list \<Rightarrow> ident list" where
  "label_ids ls \<equiv> map lbl_id ls"

text \<open>Rows ordered as the code means them to be: scores non-increasing.\<close>

abbreviation labels_sorted :: "label list \<Rightarrow> bool" where
  "labels_sorted ls \<equiv> sorted_wrt (\<ge>) (map lbl_score ls)"

subsection \<open>Row operations\<close>

lemma score_cmp_eq: "score_cmp a b = lbl_score b - lbl_score a"
proof -
  have "js_Number (data_score l) = Some (lbl_score l)" for l
    by (cases "lbl_score l < 0")
      (simp_all add: data_score_def string_of_int_def js_Number_neg_string_of_nat js_Number_string_of_nat)
  then show ?thesis by (simp add: score_cmp_def)
qed

text \<open>The comparator sort of the rows is the library's stable sort by descending score.\<close>

lemma labels_sort_sort_key: "labels_sort ls = sort_key (\<lambda>l. - lbl_score l) ls"
  unfolding labels_sort_def by (rule js_sort_sort_key) (simp add: score_cmp_eq)

lemma label_ids_add [simp]: "label_ids (label_add pid u sc ls) = label_ids ls @ [pid]"
  by (simp add: label_add_def)

lemma label_set_None_iff: "(label_set pid u sc ls = None) = (pid \<notin> set (label_ids ls))"
  by (induction ls) auto

lemma label_set_ids: "label_set pid u sc ls = Some ls' \<Longrightarrow> label_ids ls' = label_ids ls"
  by (induction ls arbitrary: ls') (auto split: if_splits)

lemma label_set_exists:
  "pid \<in> set (label_ids ls) \<Longrightarrow> \<exists>ls'. label_set pid u sc ls = Some ls' \<and> label_ids ls' = label_ids ls"
  using label_set_None_iff label_set_ids by fastforce

lemma label_remove_None_iff: "(label_remove pid ls = None) = (pid \<notin> set (label_ids ls))"
  by (induction ls) auto

lemma label_remove_ids:
  "label_remove pid ls = Some ls' \<Longrightarrow> label_ids ls' = remove1 pid (label_ids ls)"
  by (induction ls arbitrary: ls') (auto split: if_splits)

lemma label_remove_exists:
  "pid \<in> set (label_ids ls) \<Longrightarrow>
   \<exists>ls'. label_remove pid ls = Some ls' \<and> label_ids ls' = remove1 pid (label_ids ls)"
  using label_remove_None_iff label_remove_ids by fastforce

lemma mset_labels_sort [simp]: "mset (labels_sort ls) = mset ls"
  by (simp add: labels_sort_sort_key)

lemma mset_label_ids_sort [simp]: "mset (label_ids (labels_sort ls)) = mset (label_ids ls)"
  by (simp only: mset_map mset_labels_sort)

lemma labels_sort_sorted: "labels_sorted (labels_sort ls)"
proof -
  have "sorted (map (\<lambda>l. - lbl_score l) (labels_sort ls))"
    by (simp add: labels_sort_sort_key)
  then show ?thesis
    by (simp add: sorted_map sorted_wrt_map)
qed

lemma labels_sort_stable:
  "filter (\<lambda>l. lbl_score l = k) (labels_sort ls) = filter (\<lambda>l. lbl_score l = k) ls"
  using sort_key_stable [of "\<lambda>l. - lbl_score l" "- k" ls] by (simp add: labels_sort_sort_key)

lemma set_labels_sort [simp]: "set (labels_sort ls) = set ls"
  by (simp add: labels_sort_sort_key)

lemma label_set_other:
  "label_set pid u sc ls = Some ls' \<Longrightarrow>
   filter (\<lambda>l. lbl_id l \<noteq> pid) ls' = filter (\<lambda>l. lbl_id l \<noteq> pid) ls"
  by (induction ls arbitrary: ls') (auto split: if_splits)

lemma label_set_row:
  "label_set pid u sc ls = Some ls' \<Longrightarrow> \<lparr>lbl_id = pid, lbl_username = u, lbl_score = sc\<rparr> \<in> set ls'"
  by (induction ls arbitrary: ls') (auto split: if_splits)

lemma label_remove_other:
  "label_remove pid ls = Some ls' \<Longrightarrow>
   filter (\<lambda>l. lbl_id l \<noteq> pid) ls' = filter (\<lambda>l. lbl_id l \<noteq> pid) ls"
  by (induction ls arbitrary: ls') (auto split: if_splits)

lemma label_remove_split:
  "label_remove pid ls = Some ls' \<Longrightarrow> \<exists>xs l ys. ls = xs @ l # ys \<and> ls' = xs @ ys"
proof (induction ls arbitrary: ls')
  case Nil
  then show ?case by simp
next
  case (Cons l ls)
  show ?case
  proof (cases "lbl_id l = pid")
    case True
    then show ?thesis using Cons.prems by (auto intro: exI [of _ "[]"])
  next
    case False
    with Cons.prems obtain ls1 where "label_remove pid ls = Some ls1" "ls' = l # ls1" by auto
    then show ?thesis using Cons.IH by (metis append_Cons)
  qed
qed

lemma label_remove_snoc:
  "lbl_id r \<noteq> q \<Longrightarrow> label_remove q (xs @ [r]) = map_option (\<lambda>ys. ys @ [r]) (label_remove q xs)"
  by (induction xs) (simp_all add: option.map_comp comp_def)

lemma label_remove_sorted: "label_remove pid ls = Some ls' \<Longrightarrow> labels_sorted ls \<Longrightarrow> labels_sorted ls'"
  by (auto dest!: label_remove_split simp: sorted_wrt_append)

text \<open>The rows with other ids survive a rewrite or a removal of \<open>pid\<close>'s row.\<close>

lemma other_row_kept:
  assumes "filter (\<lambda>l. lbl_id l \<noteq> pid) ls' = filter (\<lambda>l. lbl_id l \<noteq> pid) ls"
    and "l \<in> set ls" "lbl_id l \<noteq> pid"
  shows "l \<in> set ls'"
proof -
  have "l \<in> set (filter (\<lambda>l. lbl_id l \<noteq> pid) ls)" using assms(2,3) by simp
  then have "l \<in> set (filter (\<lambda>l. lbl_id l \<noteq> pid) ls')" using assms(1) by simp
  then show ?thesis by simp
qed

lemma filter_unique_key:
  "distinct (map f xs) \<Longrightarrow> x \<in> set xs \<Longrightarrow> filter (\<lambda>y. f y = f x) xs = [x]"
  by (induction xs) (auto simp: filter_empty_conv image_iff)

subsection \<open>What the sort computes\<close>

text \<open>C28. The re-sort of lines 87--105, a comparator sort over the
  \<open>data-score\<close> strings, computes exactly the stable sort of the rows by
  non-increasing score: its result is the one list that holds the same rows,
  has scores non-increasing, and keeps rows of equal score in their order in
  the DOM.\<close>

theorem labels_sort_is_stable_sort:
  "labels_sort ls = ys \<longleftrightarrow>
     mset ys = mset ls \<and> labels_sorted ys \<and>
     (\<forall>k. filter (\<lambda>l. lbl_score l = k) ys = filter (\<lambda>l. lbl_score l = k) ls)"
proof
  assume "labels_sort ls = ys"
  then show "mset ys = mset ls \<and> labels_sorted ys \<and>
             (\<forall>k. filter (\<lambda>l. lbl_score l = k) ys = filter (\<lambda>l. lbl_score l = k) ls)"
    using labels_sort_sorted [of ls] labels_sort_stable [of _ ls] by auto
next
  assume ys: "mset ys = mset ls \<and> labels_sorted ys \<and>
              (\<forall>k. filter (\<lambda>l. lbl_score l = k) ys = filter (\<lambda>l. lbl_score l = k) ls)"
  have "sort_key (\<lambda>l. - lbl_score l) ls = ys"
  proof (rule properties_for_sort_key)
    show "mset ys = mset ls" using ys by simp
    show "filter (\<lambda>l. - lbl_score k = - lbl_score l) ys = filter (\<lambda>l. - lbl_score k = - lbl_score l) ls" for k
      using ys by (auto simp: eq_commute [of "lbl_score k"])
    show "sorted (map (\<lambda>l. - lbl_score l) ys)"
      using ys by (simp add: sorted_map sorted_wrt_map)
  qed
  then show "labels_sort ls = ys" by (simp add: labels_sort_sort_key)
qed

theorem labels_sort_is_stable_sort_witness:
  "labels_sort [\<lparr>lbl_id = ''a'', lbl_username = ''ann'', lbl_score = 1\<rparr>,
                \<lparr>lbl_id = ''b'', lbl_username = ''bob'', lbl_score = 5\<rparr>,
                \<lparr>lbl_id = ''c'', lbl_username = ''cy'', lbl_score = 5\<rparr>] =
   [\<lparr>lbl_id = ''b'', lbl_username = ''bob'', lbl_score = 5\<rparr>,
    \<lparr>lbl_id = ''c'', lbl_username = ''cy'', lbl_score = 5\<rparr>,
    \<lparr>lbl_id = ''a'', lbl_username = ''ann'', lbl_score = 1\<rparr>]"
  by (rule iffD2 [OF labels_sort_is_stable_sort]) auto

end
