(* ===== verification/State.thy ===== *)
theory State
  imports Entities Reconcile Scoreboard
begin

text \<open>
  The module-level state of \<open>frontend.js\<close> as one record: the entity stores
  \<open>frontEndPlayers\<close> and \<open>frontEndProjectiles\<close> (lines 26--27), the
  scoreboard rows and the visibility of \<open>#usernameForm\<close> (the DOM the
  handlers write), the \<open>keys\<close> table (lines 175--188), the pending-input log
  \<open>playerInputs\<close> and the counter \<open>sequenceNumber\<close> (lines 194--197), the
  device pixel ratio (line 12) and the messages emitted on the socket so far.
  The socket's own id, \<open>socket.id\<close>, is a parameter \<open>me\<close> of the handlers.
\<close>

datatype key = KeyW | KeyA | KeyS | KeyD

datatype message =
    Keydown key nat
  | InitGame real real real string

record client =
  frontEndPlayers :: "player js_object"
  frontEndProjectiles :: "projectile js_object"
  playerLabels :: "label list"
  usernameForm_shown :: bool
  keys :: "key \<Rightarrow> bool"
  playerInputs :: "input list"
  sequenceNumber :: nat
  devicePixelRatio :: real
  sent :: "message list"

text \<open>\<open>window.devicePixelRatio || 1\<close> (line 12): a missing or zero ratio is 1.\<close>

definition pixel_ratio :: "real option \<Rightarrow> real" where
  "pixel_ratio r = (case r of None \<Rightarrow> 1 | Some v \<Rightarrow> if v = 0 then 1 else v)"

text \<open>Assigning a number to \<open>canvas.width\<close> or \<open>canvas.height\<close>, IDL
  attributes of type \<open>unsigned long\<close>: ECMAScript's \<open>ToUint32\<close> truncates the
  value towards zero and reduces it modulo \<open>2^32\<close>, and HTML's reflection of an
  \<open>unsigned long\<close> keeps the result when it is at most \<open>2^31 - 1\<close> and uses
  the attribute's default (300 for the width, 150 for the height) otherwise.\<close>

definition js_ToUint32 :: "real \<Rightarrow> nat" where
  "js_ToUint32 x = nat ((if 0 \<le> x then \<lfloor>x\<rfloor> else - \<lfloor>- x\<rfloor>) mod 2 ^ 32)"

definition reflect_dimension :: "nat \<Rightarrow> real \<Rightarrow> nat" where
  "reflect_dimension dflt x = (let n = js_ToUint32 x in if n \<le> 2147483647 then n else dflt)"

text \<open>The canvas element after the set-up of lines 14--19: its backing store is
  \<open>1024 \<times> 576\<close> logical pixels times the device ratio, each side truncated to an
  integer by the assignment, and the 2D context is scaled by the ratio on both
  axes.  It is never changed afterwards, so it is a function of the ratio.\<close>

record canvas =
  canvas_width :: real
  canvas_height :: real
  ctx_scale :: point

definition canvas_setup :: "real \<Rightarrow> canvas" where
  "canvas_setup dpr =
     \<lparr>canvas_width = of_nat (reflect_dimension 300 (1024 * dpr)),
      canvas_height = of_nat (reflect_dimension 150 (576 * dpr)),
      ctx_scale = (dpr, dpr)\<rparr>"

text \<open>Lines 21--23: \<open>x = canvas.width / 2\<close>, \<open>y = canvas.height / 2\<close>.\<close>

definition canvas_centre :: "canvas \<Rightarrow> point" where
  "canvas_centre cv = (canvas_width cv / 2, canvas_height cv / 2)"

text \<open>The state once the script has run its top level: nothing known, no key
  held, no input sent, the username form visible.\<close>

definition client_init :: "real option \<Rightarrow> client" where
  "client_init r =
     \<lparr>frontEndPlayers = [], frontEndProjectiles = [], playerLabels = [],
      usernameForm_shown = True, keys = (\<lambda>_. False), playerInputs = [],
      sequenceNumber = 0, devicePixelRatio = pixel_ratio r, sent = []\<rparr>"

text \<open>Exception propagation through a handler body: \<open>Inl\<close> is a thrown error.\<close>

definition js_then :: "js_error + 'a \<Rightarrow> ('a \<Rightarrow> js_error + 'b) \<Rightarrow> js_error + 'b" where
  "js_then r f = (case r of Inl e \<Rightarrow> Inl e | Inr a \<Rightarrow> f a)"

lemma js_then_simps [simp]:
  "js_then (Inl e) f = Inl e"
  "js_then (Inr a) f = f a"
  by (simp_all add: js_then_def)

text \<open>Evaluating a run: simplify the first handler before looking into the rest.\<close>

lemma js_then_weak_cong: "r = r' \<Longrightarrow> js_then r f = js_then r' f"
  by simp

lemma js_then_Inr_iff:
  "(js_then r f = Inr b) = (\<exists>a. r = Inr a \<and> f a = Inr b)"
  by (cases r) auto

end
