(* ===== verification/Players.thy ===== *)
theory Players
  imports State
begin

text \<open>
  The \<open>updatePlayers\<close> socket handler of \<open>frontend.js\<close> (lines 58--144):
  the snapshot diff for players.  The first loop visits the snapshot's ids in
  order (\<^term>\<open>updatePlayers_entry\<close>): an unknown id creates a \<open>Player\<close> and
  appends a scoreboard row; a known id rewrites its row, re-sorts the rows,
  sets the player's interpolation target and, for the local player, runs the
  reconciliation of theory \<open>Reconcile\<close>.  The second loop visits the
  store's ids (\<^term>\<open>removePlayers_loop\<close>) and deletes every player the
  snapshot omits, with its row, showing the username form when that player is
  the local one.  A row that \<open>querySelector\<close> does not find is a
  \<^const>\<open>TypeError\<close>, which aborts the handler.

  The theorems give the handler's effect on the local player (reconciliation,
  or removal with the form shown again), on every other player and on the
  scoreboard rows; and two departures from the specification: the pending log
  outlives the local player's removal and is replayed after it rejoins, and the
  row of a player who joins is appended after the sort, whatever its score.
\<close>

text \<open>Lines 107--127: the new target of a known player, reconciled against the
  pending inputs when the player is the local one.\<close>

definition new_target ::
  "ident \<Rightarrow> ident \<Rightarrow> backend_player \<Rightarrow> input list \<Rightarrow> input list \<times> point" where
  "new_target me pid bp ins =
     (if pid = me then reconcile (bp_sequenceNumber bp) (bp_x bp, bp_y bp) ins
      else (ins, (bp_x bp, bp_y bp)))"

definition updatePlayers_entry ::
  "ident \<Rightarrow> ident \<Rightarrow> backend_player \<Rightarrow> client \<Rightarrow> js_error + client" where
  "updatePlayers_entry me pid bp s =
     (case map_of (frontEndPlayers s) pid of
        None \<Rightarrow>
          Inr (s\<lparr>frontEndPlayers := AList.update pid
                   (Player_new (bp_x bp) (bp_y bp) 10 (bp_color bp) (bp_username bp))
                   (frontEndPlayers s),
                 playerLabels := label_add pid (bp_username bp) (bp_score bp) (playerLabels s)\<rparr>)
      | Some p \<Rightarrow>
          (case label_set pid (bp_username bp) (bp_score bp) (playerLabels s) of
             None \<Rightarrow> Inl TypeError
           | Some ls \<Rightarrow>
               (case new_target me pid bp (playerInputs s) of (ins, t) \<Rightarrow>
                  Inr (s\<lparr>playerLabels := labels_sort ls,
                          frontEndPlayers :=
                            AList.update pid (p\<lparr>player_target := Some t\<rparr>) (frontEndPlayers s),
                          playerInputs := ins\<rparr>))))"

fun updatePlayers_loop :: "ident \<Rightarrow> backend_player js_object \<Rightarrow> client \<Rightarrow> js_error + client" where
  "updatePlayers_loop me [] s = Inr s"
| "updatePlayers_loop me ((pid, bp) # rest) s =
     js_then (updatePlayers_entry me pid bp s) (updatePlayers_loop me rest)"

definition removePlayer :: "ident \<Rightarrow> ident \<Rightarrow> client \<Rightarrow> js_error + client" where
  "removePlayer me pid s =
     (case label_remove pid (playerLabels s) of
        None \<Rightarrow> Inl TypeError
      | Some ls \<Rightarrow>
          Inr (s\<lparr>playerLabels := ls,
                 usernameForm_shown := (if pid = me then True else usernameForm_shown s),
                 frontEndPlayers := AList.delete pid (frontEndPlayers s)\<rparr>))"

fun removePlayers_loop ::
  "ident \<Rightarrow> backend_player js_object \<Rightarrow> ident list \<Rightarrow> client \<Rightarrow> js_error + client" where
  "removePlayers_loop me snap [] s = Inr s"
| "removePlayers_loop me snap (pid # ids) s =
     (if map_of snap pid = None
      then js_then (removePlayer me pid s) (removePlayers_loop me snap ids)
      else removePlayers_loop me snap ids s)"

definition updatePlayers :: "ident \<Rightarrow> backend_player js_object \<Rightarrow> client \<Rightarrow> js_error + client" where
  "updatePlayers me snap s =
     js_then (updatePlayers_loop me snap s)
       (\<lambda>s1. removePlayers_loop me snap (js_keys (frontEndPlayers s1)) s1)"

text \<open>What one entry of the snapshot makes of the stored player \<open>old\<close> and
  of the pending log \<open>ins\<close>.\<close>

abbreviation entry_player ::
  "ident \<Rightarrow> ident \<Rightarrow> backend_player \<Rightarrow> player option \<Rightarrow> input list \<Rightarrow> player" where
  "entry_player me pid bp old ins \<equiv>
     (case old of
        None \<Rightarrow> Player_new (bp_x bp) (bp_y bp) 10 (bp_color bp) (bp_username bp)
      | Some p \<Rightarrow> p\<lparr>player_target := Some (snd (new_target me pid bp ins))\<rparr>)"

abbreviation entry_inputs ::
  "ident \<Rightarrow> ident \<Rightarrow> backend_player \<Rightarrow> player option \<Rightarrow> input list \<Rightarrow> input list" where
  "entry_inputs me pid bp old ins \<equiv>
     (case old of None \<Rightarrow> ins | Some p \<Rightarrow> fst (new_target me pid bp ins))"

text \<open>The scoreboard row the snapshot entry of \<open>pid\<close> asks for.\<close>

abbreviation row_of :: "ident \<Rightarrow> backend_player \<Rightarrow> label" where
  "row_of pid bp \<equiv> \<lparr>lbl_id = pid, lbl_username = bp_username bp, lbl_score = bp_score bp\<rparr>"

text \<open>The agreement the handler relies on: the store has no key twice, and there
  is exactly one scoreboard row per stored player.\<close>

definition players_inv :: "client \<Rightarrow> bool" where
  "players_inv s \<longleftrightarrow>
     js_wf (frontEndPlayers s) \<and>
     mset (label_ids (playerLabels s)) = mset (js_keys (frontEndPlayers s))"

text \<open>The handler does not touch the counter, the keys, the socket, the
  projectiles or the pixel ratio, and only drops a prefix of the pending log.\<close>

definition players_frame :: "client \<Rightarrow> client \<Rightarrow> bool" where
  "players_frame s s' \<longleftrightarrow>
     sequenceNumber s' = sequenceNumber s \<and> keys s' = keys s \<and> sent s' = sent s \<and>
     frontEndProjectiles s' = frontEndProjectiles s \<and> devicePixelRatio s' = devicePixelRatio s \<and>
     (\<exists>k. playerInputs s' = drop k (playerInputs s))"

abbreviation player_ids :: "client \<Rightarrow> ident set" where
  "player_ids s \<equiv> set (js_keys (frontEndPlayers s))"

lemma players_inv_row:
  assumes "players_inv s" "pid \<in> player_ids s"
  shows "pid \<in> set (label_ids (playerLabels s))"
proof -
  have "mset (label_ids (playerLabels s)) = mset (js_keys (frontEndPlayers s))"
    using assms(1) by (simp only: players_inv_def)
  then have "set (label_ids (playerLabels s)) = player_ids s" by (rule mset_eq_setD)
  with assms(2) show ?thesis by simp
qed

subsection \<open>One snapshot entry\<close>

lemma entry_new:
  assumes "players_inv s" "map_of (frontEndPlayers s) pid = None"
  shows "\<exists>s'. updatePlayers_entry me pid bp s = Inr s' \<and> players_inv s' \<and>
              player_ids s' = insert pid (player_ids s)"
proof -
  have "pid \<notin> player_ids s" using assms(2) by (simp add: map_of_None_iff)
  then show ?thesis
    using assms by (simp add: updatePlayers_entry_def players_inv_def label_add_def)
qed

lemma entry_known:
  assumes "players_inv s" "map_of (frontEndPlayers s) pid = Some p"
  shows "\<exists>s'. updatePlayers_entry me pid bp s = Inr s' \<and> players_inv s' \<and>
              player_ids s' = player_ids s"
proof -
  have known: "pid \<in> player_ids s" using assms(2) by (simp add: map_of_Some_key)
  then obtain ls where ls: "label_set pid (bp_username bp) (bp_score bp) (playerLabels s) = Some ls"
      "label_ids ls = label_ids (playerLabels s)"
    using label_set_exists [OF players_inv_row [OF assms(1)]] by blast
  obtain ins t where it: "new_target me pid bp (playerInputs s) = (ins, t)"
    by (cases "new_target me pid bp (playerInputs s)")
  have "mset (label_ids (labels_sort ls)) = mset (label_ids (playerLabels s))"
    by (simp only: mset_label_ids_sort ls(2))
  then show ?thesis
    using assms known ls it
    by (simp add: updatePlayers_entry_def players_inv_def insert_absorb)
qed

lemma entry_ok:
  assumes "players_inv s"
  shows "\<exists>s'. updatePlayers_entry me pid bp s = Inr s' \<and> players_inv s' \<and>
              player_ids s' = insert pid (player_ids s)"
proof (cases "map_of (frontEndPlayers s) pid")
  case None
  then show ?thesis using entry_new [OF assms] by blast
next
  case (Some p)
  then have "pid \<in> player_ids s" by (simp add: map_of_Some_key)
  then show ?thesis using entry_known [OF assms Some] by (simp add: insert_absorb)
qed

lemma loop_ok:
  "players_inv s \<Longrightarrow>
   \<exists>s'. updatePlayers_loop me snap s = Inr s' \<and> players_inv s' \<and>
        player_ids s' = player_ids s \<union> set (js_keys snap)"
proof (induction snap arbitrary: s)
  case Nil
  then show ?case by simp
next
  case (Cons e snap)
  obtain pid bp where e: "e = (pid, bp)" by fastforce
  obtain s1 where s1: "updatePlayers_entry me pid bp s = Inr s1" "players_inv s1"
      "player_ids s1 = insert pid (player_ids s)"
    using entry_ok [OF Cons.prems] by blast
  then show ?case using Cons.IH [OF s1(2)] e by auto
qed

subsection \<open>Removal of players the snapshot omits\<close>

lemma removePlayer_ok:
  assumes "players_inv s" "pid \<in> player_ids s"
  shows "\<exists>s'. removePlayer me pid s = Inr s' \<and> players_inv s' \<and>
              player_ids s' = player_ids s - {pid}"
proof -
  obtain ls where ls: "label_remove pid (playerLabels s) = Some ls"
      "label_ids ls = remove1 pid (label_ids (playerLabels s))"
    using label_remove_exists [OF players_inv_row [OF assms]] by blast
  have wf: "js_wf (frontEndPlayers s)" using assms(1) by (simp add: players_inv_def)
  then have keys: "js_keys (AList.delete pid (frontEndPlayers s)) = remove1 pid (js_keys (frontEndPlayers s))"
    by (simp add: AList.delete_keys distinct_remove1_removeAll)
  have m1: "mset (label_ids ls) = mset (label_ids (playerLabels s)) - {#pid#}"
    by (simp only: ls(2) mset_remove1)
  have m2: "mset (js_keys (AList.delete pid (frontEndPlayers s))) = mset (js_keys (frontEndPlayers s)) - {#pid#}"
    by (simp only: keys mset_remove1)
  have st: "set (js_keys (AList.delete pid (frontEndPlayers s))) = player_ids s - {pid}"
    using wf by (simp only: keys set_remove1_eq)
  show ?thesis
    using assms ls(1) m1 m2 st wf
    by (simp add: removePlayer_def players_inv_def AList.distinct_delete)
qed

lemma removePlayers_loop_ok:
  "players_inv s \<Longrightarrow> distinct ids \<Longrightarrow> set ids \<subseteq> player_ids s \<Longrightarrow>
   \<exists>s'. removePlayers_loop me snap ids s = Inr s' \<and> players_inv s' \<and>
        player_ids s' = player_ids s - {k \<in> set ids. map_of snap k = None}"
proof (induction ids arbitrary: s)
  case Nil
  then show ?case by simp
next
  case (Cons pid ids)
  show ?case
  proof (cases "map_of snap pid = None")
    case True
    have "pid \<in> player_ids s" using Cons.prems(3) by simp
    then obtain s1 where s1: "removePlayer me pid s = Inr s1" "players_inv s1"
        "player_ids s1 = player_ids s - {pid}"
      using removePlayer_ok [OF Cons.prems(1)] by blast
    have "set ids \<subseteq> player_ids s1" using Cons.prems(2,3) s1(3) by auto
    then obtain s2 where "removePlayers_loop me snap ids s1 = Inr s2" "players_inv s2"
        "player_ids s2 = player_ids s1 - {k \<in> set ids. map_of snap k = None}"
      using Cons.IH [OF s1(2)] Cons.prems(2) by auto
    then show ?thesis using True s1 by auto
  next
    case False
    obtain s2 where "removePlayers_loop me snap ids s = Inr s2" "players_inv s2"
        "player_ids s2 = player_ids s - {k \<in> set ids. map_of snap k = None}"
      using Cons.IH [OF Cons.prems(1)] Cons.prems(2,3) by auto
    moreover have "{k \<in> set (pid # ids). map_of snap k = None} = {k \<in> set ids. map_of snap k = None}"
      using False by auto
    moreover have "removePlayers_loop me snap (pid # ids) s = removePlayers_loop me snap ids s"
      using False by (simp only: removePlayers_loop.simps if_False)
    ultimately show ?thesis by simp
  qed
qed

subsection \<open>What the handler leaves alone\<close>

lemma players_frame_refl [simp]: "players_frame s s"
  unfolding players_frame_def by (metis drop0)

lemma players_frame_trans: "players_frame s1 s2 \<Longrightarrow> players_frame s2 s3 \<Longrightarrow> players_frame s1 s3"
  unfolding players_frame_def by (metis drop_drop)

lemma new_target_inputs: "\<exists>k. fst (new_target me pid bp ins) = drop k ins"
  using trim_inputs_suffix [of _ ins]
  by (auto simp: new_target_def reconcile_def Let_def intro: exI [of _ 0])

lemma entry_frame: "updatePlayers_entry me pid bp s = Inr s' \<Longrightarrow> players_frame s s'"
  using new_target_inputs [of me pid bp "playerInputs s"]
  by (auto simp: updatePlayers_entry_def players_frame_def split: option.splits prod.splits)

lemma entry_form: "updatePlayers_entry me pid bp s = Inr s' \<Longrightarrow> usernameForm_shown s' = usernameForm_shown s"
  by (auto simp: updatePlayers_entry_def split: option.splits prod.splits)

lemma loop_frame: "updatePlayers_loop me snap s = Inr s' \<Longrightarrow> players_frame s s'"
proof (induction snap arbitrary: s)
  case Nil
  then show ?case by simp
next
  case (Cons e snap)
  obtain pid bp where e: "e = (pid, bp)" by fastforce
  from Cons.prems obtain s1 where "updatePlayers_entry me pid bp s = Inr s1"
      "updatePlayers_loop me snap s1 = Inr s'"
    by (auto simp: e js_then_Inr_iff)
  then show ?case using Cons.IH entry_frame players_frame_trans by blast
qed

lemma removePlayer_frame: "removePlayer me pid s = Inr s' \<Longrightarrow> players_frame s s'"
  by (auto simp: removePlayer_def players_frame_def split: option.splits intro: exI [of _ 0])

lemma removePlayers_loop_frame: "removePlayers_loop me snap ids s = Inr s' \<Longrightarrow> players_frame s s'"
proof (induction ids arbitrary: s)
  case Nil
  then show ?case by simp
next
  case (Cons pid ids)
  then show ?case
    by (auto simp: js_then_Inr_iff split: if_splits
        intro: players_frame_trans [OF removePlayer_frame])
qed

lemma updatePlayers_frame: "updatePlayers me snap s = Inr s' \<Longrightarrow> players_frame s s'"
  by (auto simp: updatePlayers_def js_then_Inr_iff
      intro: players_frame_trans [OF loop_frame removePlayers_loop_frame])

text \<open>The whole handler on a state that satisfies \<^term>\<open>players_inv\<close>: it
  returns, keeps the invariant, and leaves exactly the snapshot's ids in the store.\<close>

lemma updatePlayers_ok:
  assumes "players_inv s"
  shows "\<exists>s'. updatePlayers me snap s = Inr s' \<and> players_inv s' \<and>
              player_ids s' = set (js_keys snap)"
proof -
  obtain s1 where s1: "updatePlayers_loop me snap s = Inr s1" "players_inv s1"
      "player_ids s1 = player_ids s \<union> set (js_keys snap)"
    using loop_ok [OF assms] by blast
  have "js_wf (frontEndPlayers s1)" using s1(2) by (simp add: players_inv_def)
  then obtain s2 where s2: "removePlayers_loop me snap (js_keys (frontEndPlayers s1)) s1 = Inr s2"
      "players_inv s2"
      "player_ids s2 = player_ids s1 - {k \<in> player_ids s1. map_of snap k = None}"
    using removePlayers_loop_ok [OF s1(2)] by blast
  have "player_ids s2 = set (js_keys snap)"
    using s1(3) s2(3) by (auto simp: map_of_None_iff)
  then show ?thesis using s1(1) s2(1,2) by (simp add: updatePlayers_def)
qed

subsection \<open>The handler, key by key\<close>

lemma new_target_other [simp]: "pid \<noteq> me \<Longrightarrow> new_target me pid bp ins = (ins, (bp_x bp, bp_y bp))"
  by (simp add: new_target_def)

lemma entry_result:
  "updatePlayers_entry me pid bp s = Inr s' \<Longrightarrow>
   map_of (frontEndPlayers s') =
     (map_of (frontEndPlayers s))(pid \<mapsto> entry_player me pid bp (map_of (frontEndPlayers s) pid) (playerInputs s)) \<and>
   playerInputs s' = entry_inputs me pid bp (map_of (frontEndPlayers s) pid) (playerInputs s)"
  by (auto simp: updatePlayers_entry_def AList.update_conv' split: option.splits prod.splits)

lemma loop_result:
  "js_wf snap \<Longrightarrow> updatePlayers_loop me snap s = Inr s' \<Longrightarrow>
   map_of (frontEndPlayers s') k =
     (case map_of snap k of
        None \<Rightarrow> map_of (frontEndPlayers s) k
      | Some bp \<Rightarrow> Some (entry_player me k bp (map_of (frontEndPlayers s) k) (playerInputs s))) \<and>
   playerInputs s' =
     (case map_of snap me of
        None \<Rightarrow> playerInputs s
      | Some bp \<Rightarrow> entry_inputs me me bp (map_of (frontEndPlayers s) me) (playerInputs s))"
proof (induction snap arbitrary: s)
  case Nil
  then show ?case by simp
next
  case (Cons e snap)
  obtain pid bp' where e: "e = (pid, bp')" by fastforce
  from Cons.prems obtain s1 where s1: "updatePlayers_entry me pid bp' s = Inr s1"
      "updatePlayers_loop me snap s1 = Inr s'"
    by (auto simp: e js_then_Inr_iff)
  from Cons.prems(1) e have fresh: "map_of snap pid = None" and wf: "js_wf snap"
    by (auto simp: map_of_None_iff)
  note r1 = entry_result [OF s1(1)]
  note IH = Cons.IH [OF wf s1(2)]
  have inputs: "playerInputs s' =
     (case map_of (e # snap) me of
        None \<Rightarrow> playerInputs s
      | Some bp \<Rightarrow> entry_inputs me me bp (map_of (frontEndPlayers s) me) (playerInputs s))"
  proof (cases "pid = me")
    case True
    then show ?thesis using IH r1 fresh e by auto
  next
    case False
    then show ?thesis using IH r1 e by (simp split: option.split)
  qed
  have players: "map_of (frontEndPlayers s') k =
     (case map_of (e # snap) k of
        None \<Rightarrow> map_of (frontEndPlayers s) k
      | Some bp \<Rightarrow> Some (entry_player me k bp (map_of (frontEndPlayers s) k) (playerInputs s)))"
  proof (cases "k = pid")
    case True
    then show ?thesis using IH r1 fresh e by (cases "map_of (frontEndPlayers s) pid") auto
  next
    case False
    show ?thesis
    proof (cases "k = me")
      case True
      with False have "playerInputs s1 = playerInputs s"
        using r1 by (simp split: option.split)
      then show ?thesis using IH r1 e False by (simp split: option.split)
    next
      case False
      then show ?thesis using IH r1 e \<open>k \<noteq> pid\<close> by (simp split: option.split)
    qed
  qed
  from players inputs show ?case by blast
qed

lemma removePlayers_loop_result:
  "removePlayers_loop me snap ids s = Inr s' \<Longrightarrow>
   map_of (frontEndPlayers s') k =
     (if k \<in> set ids \<and> map_of snap k = None then None else map_of (frontEndPlayers s) k) \<and>
   playerInputs s' = playerInputs s"
proof (induction ids arbitrary: s)
  case Nil
  then show ?case by simp
next
  case (Cons pid ids)
  show ?case
  proof (cases "map_of snap pid = None")
    case True
    with Cons.prems obtain s1 where "removePlayer me pid s = Inr s1"
        "removePlayers_loop me snap ids s1 = Inr s'"
      by (auto simp: js_then_Inr_iff)
    moreover from this(1) have "map_of (frontEndPlayers s1) = (map_of (frontEndPlayers s))(pid := None)"
        "playerInputs s1 = playerInputs s"
      by (auto simp: removePlayer_def AList.delete_conv' split: option.splits)
    ultimately show ?thesis using Cons.IH True by auto
  next
    case False
    then show ?thesis using Cons by auto
  qed
qed

lemma updatePlayers_result:
  assumes "js_wf snap" "updatePlayers me snap s = Inr s'"
  shows "map_of (frontEndPlayers s') k =
           map_option (\<lambda>bp. entry_player me k bp (map_of (frontEndPlayers s) k) (playerInputs s))
             (map_of snap k) \<and>
         playerInputs s' =
           (case map_of snap me of
              None \<Rightarrow> playerInputs s
            | Some bp \<Rightarrow> entry_inputs me me bp (map_of (frontEndPlayers s) me) (playerInputs s))"
proof -
  from assms(2) obtain s1 where s1: "updatePlayers_loop me snap s = Inr s1"
      "removePlayers_loop me snap (js_keys (frontEndPlayers s1)) s1 = Inr s'"
    by (auto simp: updatePlayers_def js_then_Inr_iff)
  note l = loop_result [OF assms(1) s1(1), of k]
  note r = removePlayers_loop_result [OF s1(2), of k]
  have "k \<notin> fst ` set (frontEndPlayers s1) \<Longrightarrow> map_of (frontEndPlayers s1) k = None"
    by (simp add: map_of_None_iff)
  then show ?thesis using l r by (cases "map_of snap k") auto
qed

subsection \<open>Scoreboard rows through the handler\<close>

lemma entry_rows:
  assumes "updatePlayers_entry me pid bp s = Inr s'"
  shows "row_of pid bp \<in> set (playerLabels s') \<and>
         (\<forall>l\<in>set (playerLabels s). lbl_id l \<noteq> pid \<longrightarrow> l \<in> set (playerLabels s'))"
proof (cases "map_of (frontEndPlayers s) pid")
  case None
  then show ?thesis using assms by (auto simp: updatePlayers_entry_def label_add_def)
next
  case (Some p)
  then obtain ls where ls: "label_set pid (bp_username bp) (bp_score bp) (playerLabels s) = Some ls"
      "set (playerLabels s') = set ls"
    using assms by (auto simp: updatePlayers_entry_def split: option.splits prod.splits)
  show ?thesis
    using label_set_row [OF ls(1)] other_row_kept [OF label_set_other [OF ls(1)]] ls(2) by auto
qed

lemma entry_known_sorted:
  "map_of (frontEndPlayers s) pid = Some p \<Longrightarrow> updatePlayers_entry me pid bp s = Inr s' \<Longrightarrow>
   labels_sorted (playerLabels s')"
  by (auto simp: updatePlayers_entry_def labels_sort_sorted split: option.splits prod.splits)

lemma loop_rows:
  "updatePlayers_loop me snap s = Inr s' \<Longrightarrow>
   (\<forall>l\<in>set (playerLabels s). lbl_id l \<notin> fst ` set snap \<longrightarrow> l \<in> set (playerLabels s')) \<and>
   (js_wf snap \<longrightarrow> (\<forall>(k, bp)\<in>set snap. row_of k bp \<in> set (playerLabels s')))"
proof (induction snap arbitrary: s)
  case Nil
  then show ?case by simp
next
  case (Cons e snap)
  obtain pid bp' where e: "e = (pid, bp')" by fastforce
  from Cons.prems obtain s1 where s1: "updatePlayers_entry me pid bp' s = Inr s1"
      "updatePlayers_loop me snap s1 = Inr s'"
    by (auto simp: e js_then_Inr_iff)
  note r1 = entry_rows [OF s1(1)]
  note IH = Cons.IH [OF s1(2)]
  have keep: "\<forall>l\<in>set (playerLabels s). lbl_id l \<notin> fst ` set (e # snap) \<longrightarrow> l \<in> set (playerLabels s')"
    using r1 IH e by auto
  have rows: "\<forall>(k, bp)\<in>set (e # snap). row_of k bp \<in> set (playerLabels s')"
    if wf: "js_wf (e # snap)"
  proof -
    have "pid \<notin> fst ` set snap" "js_wf snap" using wf e by auto
    then show ?thesis using r1 IH e by auto
  qed
  from keep rows show ?case by blast
qed

lemma loop_sorted:
  "updatePlayers_loop me snap s = Inr s' \<Longrightarrow> players_inv s \<Longrightarrow> snap \<noteq> [] \<Longrightarrow>
   set (js_keys snap) \<subseteq> player_ids s \<Longrightarrow> labels_sorted (playerLabels s')"
proof (induction snap arbitrary: s)
  case Nil
  then show ?case by simp
next
  case (Cons e snap)
  obtain pid bp' where e: "e = (pid, bp')" by fastforce
  from Cons.prems(1) obtain s1 where s1: "updatePlayers_entry me pid bp' s = Inr s1"
      "updatePlayers_loop me snap s1 = Inr s'"
    by (auto simp: e js_then_Inr_iff)
  have known: "pid \<in> player_ids s" using Cons.prems(4) e by simp
  then obtain p where p: "map_of (frontEndPlayers s) pid = Some p"
    by (auto dest: weak_map_of_SomeI)
  obtain s2 where s2: "updatePlayers_entry me pid bp' s = Inr s2" "players_inv s2" "player_ids s2 = player_ids s"
    using entry_known [OF Cons.prems(2) p] by blast
  have s12: "s2 = s1" using s1(1) s2(1) by simp
  show ?case
  proof (cases "snap = []")
    case True
    then show ?thesis using s1 entry_known_sorted [OF p s1(1)] by simp
  next
    case False
    then show ?thesis using Cons.IH [OF s1(2)] s2 s12 Cons.prems(4) by auto
  qed
qed

lemma removePlayers_loop_rows:
  "removePlayers_loop me snap ids s = Inr s' \<Longrightarrow>
   (\<forall>l\<in>set (playerLabels s). map_of snap (lbl_id l) \<noteq> None \<longrightarrow> l \<in> set (playerLabels s')) \<and>
   (labels_sorted (playerLabels s) \<longrightarrow> labels_sorted (playerLabels s'))"
proof (induction ids arbitrary: s)
  case Nil
  then show ?case by simp
next
  case (Cons pid ids)
  show ?case
  proof (cases "map_of snap pid = None")
    case True
    with Cons.prems obtain s1 where s1: "removePlayer me pid s = Inr s1"
        "removePlayers_loop me snap ids s1 = Inr s'"
      by (auto simp: js_then_Inr_iff)
    then obtain ls where ls: "label_remove pid (playerLabels s) = Some ls" "playerLabels s1 = ls"
      by (auto simp: removePlayer_def split: option.splits)
    have "\<forall>l\<in>set (playerLabels s). map_of snap (lbl_id l) \<noteq> None \<longrightarrow> lbl_id l \<noteq> pid"
      using True by auto
    then have "\<forall>l\<in>set (playerLabels s). map_of snap (lbl_id l) \<noteq> None \<longrightarrow> l \<in> set (playerLabels s1)"
      using other_row_kept [OF label_remove_other [OF ls(1)]] ls(2) by auto
    moreover have "labels_sorted (playerLabels s) \<longrightarrow> labels_sorted (playerLabels s1)"
      using label_remove_sorted [OF ls(1)] ls(2) by simp
    ultimately show ?thesis using Cons.IH [OF s1(2)] by blast
  next
    case False
    then show ?thesis using Cons by auto
  qed
qed

text \<open>What the handler does to the local player already in the store: the log is
  trimmed at the acknowledged number and the target is the reported position
  with the rest of the log replayed.\<close>

lemma updatePlayers_local_target:
  assumes "players_inv s" "js_wf snap" "map_of snap me = Some bp"
    and "map_of (frontEndPlayers s) me = Some p"
  shows "\<exists>s'. updatePlayers me snap s = Inr s' \<and>
           playerInputs s' = trim_inputs (bp_sequenceNumber bp) (playerInputs s) \<and>
           map_option player_target (map_of (frontEndPlayers s') me) =
             Some (Some (replay (trim_inputs (bp_sequenceNumber bp) (playerInputs s)) (bp_x bp, bp_y bp)))"
proof -
  obtain s' where s': "updatePlayers me snap s = Inr s'"
    using updatePlayers_ok [OF assms(1)] by blast
  then show ?thesis
    using updatePlayers_result [OF assms(2) s', of me] assms(3,4) by (simp add: new_target_def reconcile_def Let_def)
qed

subsection \<open>The username form, the last row, and split snapshots\<close>

lemma loop_form: "updatePlayers_loop me snap s = Inr s' \<Longrightarrow> usernameForm_shown s' = usernameForm_shown s"
proof (induction me snap s rule: updatePlayers_loop.induct)
  case (2 me pid bp rest s)
  then obtain s1 where "updatePlayers_entry me pid bp s = Inr s1" "updatePlayers_loop me rest s1 = Inr s'"
    by (auto simp: js_then_Inr_iff)
  then show ?case using "2.IH" entry_form by simp
qed simp

lemma removePlayers_loop_form:
  "removePlayers_loop me snap ids s = Inr s' \<Longrightarrow>
   usernameForm_shown s' = (usernameForm_shown s \<or> (me \<in> set ids \<and> map_of snap me = None))"
proof (induction ids arbitrary: s)
  case Nil
  then show ?case by simp
next
  case (Cons pid ids)
  show ?case
  proof (cases "map_of snap pid = None")
    case True
    with Cons.prems obtain s1 where s1: "removePlayer me pid s = Inr s1"
        "removePlayers_loop me snap ids s1 = Inr s'"
      by (auto simp: js_then_Inr_iff)
    then have "usernameForm_shown s1 = (pid = me \<or> usernameForm_shown s)"
      by (auto simp: removePlayer_def split: option.splits if_splits)
    then show ?thesis using Cons.IH [OF s1(2)] True by auto
  next
    case False
    have "removePlayers_loop me snap (pid # ids) s = removePlayers_loop me snap ids s"
      using False by (simp only: removePlayers_loop.simps if_False)
    then have "removePlayers_loop me snap ids s = Inr s'" using Cons.prems by simp
    then show ?thesis using Cons.IH [of s] False by auto
  qed
qed

text \<open>The form is shown after the handler exactly when it was shown before or
  the snapshot drops a local player the store held.\<close>

lemma updatePlayers_form:
  assumes "js_wf snap" "updatePlayers me snap s = Inr s'"
  shows "usernameForm_shown s' =
           (usernameForm_shown s \<or> (map_of (frontEndPlayers s) me \<noteq> None \<and> map_of snap me = None))"
proof -
  from assms(2) obtain s1 where s1: "updatePlayers_loop me snap s = Inr s1"
      "removePlayers_loop me snap (js_keys (frontEndPlayers s1)) s1 = Inr s'"
    by (auto simp: updatePlayers_def js_then_Inr_iff)
  have k: "(me \<in> set (js_keys (frontEndPlayers s1))) = (map_of (frontEndPlayers s1) me \<noteq> None)"
    by (simp add: map_of_None_iff)
  show ?thesis
  proof (cases "map_of snap me = None")
    case True
    then have "map_of (frontEndPlayers s1) me = map_of (frontEndPlayers s) me"
      using loop_result [OF assms(1) s1(1), of me] by simp
    then show ?thesis using removePlayers_loop_form [OF s1(2)] loop_form [OF s1(1)] True k by simp
  next
    case False
    then show ?thesis using removePlayers_loop_form [OF s1(2)] loop_form [OF s1(1)] by auto
  qed
qed

lemma updatePlayers_loop_append:
  "updatePlayers_loop me (xs @ ys) s = js_then (updatePlayers_loop me xs s) (updatePlayers_loop me ys)"
  by (induction me xs s rule: updatePlayers_loop.induct) (auto simp: js_then_def split: sum.split)

lemma removePlayers_loop_last:
  "removePlayers_loop me snap ids s = Inr s' \<Longrightarrow> map_of snap (lbl_id r) \<noteq> None \<Longrightarrow>
   playerLabels s = ls @ [r] \<Longrightarrow> \<exists>ls'. playerLabels s' = ls' @ [r]"
proof (induction ids arbitrary: s ls)
  case Nil
  then show ?case by auto
next
  case (Cons pid ids)
  show ?case
  proof (cases "map_of snap pid = None")
    case True
    with Cons.prems(1) obtain s1 where s1: "removePlayer me pid s = Inr s1"
        "removePlayers_loop me snap ids s1 = Inr s'"
      by (auto simp: js_then_Inr_iff)
    have "lbl_id r \<noteq> pid" using True Cons.prems(2) by auto
    then have "label_remove pid (playerLabels s) = map_option (\<lambda>ys. ys @ [r]) (label_remove pid ls)"
      using Cons.prems(3) by (simp add: label_remove_snoc)
    then obtain ls1 where "playerLabels s1 = ls1 @ [r]"
      using s1(1) by (auto simp: removePlayer_def split: option.splits)
    then show ?thesis using Cons.IH [OF s1(2) Cons.prems(2)] by blast
  next
    case False
    then show ?thesis using Cons by auto
  qed
qed

subsection \<open>Properties of the handler\<close>

text \<open>C4. When a snapshot mentions the local player, already in the store, the
  handler replaces the pending log by the reconciled one and sets the local
  player's target to the reconciled position: the authoritative position plus the
  inputs the server has not yet processed.  Nothing else changes that player.\<close>

theorem updatePlayers_reconciles_local_player:
  assumes "players_inv s" "js_wf snap" "map_of snap me = Some bp"
    and "map_of (frontEndPlayers s) me = Some p"
  shows "\<exists>s'. updatePlayers me snap s = Inr s' \<and>
           playerInputs s' = fst (reconcile (bp_sequenceNumber bp) (bp_x bp, bp_y bp) (playerInputs s)) \<and>
           map_of (frontEndPlayers s') me =
             Some (p\<lparr>player_target :=
                      Some (snd (reconcile (bp_sequenceNumber bp) (bp_x bp, bp_y bp) (playerInputs s)))\<rparr>)"
proof -
  obtain s' where s': "updatePlayers me snap s = Inr s'"
    using updatePlayers_ok [OF assms(1)] by blast
  then show ?thesis
    using updatePlayers_result [OF assms(2) s', of me] assms(3,4) by (simp add: new_target_def)
qed

theorem updatePlayers_reconciles_local_player_witness:
  "let s = \<lparr>frontEndPlayers = [(''me'', Player_new 0 0 10 ''red'' ''ann'')], frontEndProjectiles = [],
      playerLabels = [\<lparr>lbl_id = ''me'', lbl_username = ''ann'', lbl_score = 0\<rparr>],
      usernameForm_shown = False, keys = (\<lambda>_. False),
      playerInputs = [\<lparr>seq_no = 1, dx = 0, dy = -5\<rparr>, \<lparr>seq_no = 2, dx = 0, dy = -5\<rparr>,
                      \<lparr>seq_no = 3, dx = 5, dy = 0\<rparr>],
      sequenceNumber = 3, devicePixelRatio = 1, sent = []\<rparr>;
       snap = [(''me'', \<lparr>bp_x = 100, bp_y = 100, bp_color = ''red'', bp_username = ''ann'',
                 bp_score = 0, bp_sequenceNumber = 2\<rparr>)]
   in players_inv s \<and> js_wf snap \<and>
      map_of snap ''me'' = Some (the (map_of snap ''me'')) \<and>
      map_of (frontEndPlayers s) ''me'' = Some (Player_new 0 0 10 ''red'' ''ann'') \<and>
      (\<exists>s'. updatePlayers ''me'' snap s = Inr s' \<and>
            playerInputs s' = [\<lparr>seq_no = 3, dx = 5, dy = 0\<rparr>] \<and>
            map_of (frontEndPlayers s') ''me'' =
              Some ((Player_new 0 0 10 ''red'' ''ann'')\<lparr>player_target := Some (105, 100)\<rparr>))"
  unfolding Let_def
proof (intro conjI)
  let ?s = "\<lparr>frontEndPlayers = [(''me'', Player_new 0 0 10 ''red'' ''ann'')], frontEndProjectiles = [],
      playerLabels = [\<lparr>lbl_id = ''me'', lbl_username = ''ann'', lbl_score = 0\<rparr>],
      usernameForm_shown = False, keys = (\<lambda>_. False),
      playerInputs = [\<lparr>seq_no = 1, dx = 0, dy = -5\<rparr>, \<lparr>seq_no = 2, dx = 0, dy = -5\<rparr>,
                      \<lparr>seq_no = 3, dx = 5, dy = 0\<rparr>],
      sequenceNumber = 3, devicePixelRatio = 1, sent = []\<rparr>"
  let ?snap = "[(''me'', \<lparr>bp_x = 100, bp_y = 100, bp_color = ''red'', bp_username = ''ann'',
                 bp_score = 0, bp_sequenceNumber = 2\<rparr>)]"
  show h1: "players_inv ?s" by (simp add: players_inv_def)
  show h2: "js_wf ?snap" by simp
  show h3: "map_of ?snap ''me'' = Some (the (map_of ?snap ''me''))" by simp
  show h4: "map_of (frontEndPlayers ?s) ''me'' = Some (Player_new 0 0 10 ''red'' ''ann'')" by simp
  show "\<exists>s'. updatePlayers ''me'' ?snap ?s = Inr s' \<and>
            playerInputs s' = [\<lparr>seq_no = 3, dx = 5, dy = 0\<rparr>] \<and>
            map_of (frontEndPlayers s') ''me'' =
              Some ((Player_new 0 0 10 ''red'' ''ann'')\<lparr>player_target := Some (105, 100)\<rparr>)"
    using updatePlayers_reconciles_local_player [OF h1 h2 h3 h4]
    by (simp add: reconcile_def trim_inputs_def splice0_def replay_def)
qed

text \<open>C5. For every other player id: after the handler, a player the snapshot
  omits is gone, an unknown one is created at the server's position with no
  target, and a known one keeps its rendered position and gets the server's
  position as its interpolation target.\<close>

theorem updatePlayers_remote_players:
  assumes "players_inv s" "js_wf snap" "k \<noteq> me"
  shows "\<exists>s'. updatePlayers me snap s = Inr s' \<and>
           map_of (frontEndPlayers s') k =
             (case map_of snap k of
                None \<Rightarrow> None
              | Some bp \<Rightarrow>
                  Some (case map_of (frontEndPlayers s) k of
                          None \<Rightarrow> Player_new (bp_x bp) (bp_y bp) 10 (bp_color bp) (bp_username bp)
                        | Some p \<Rightarrow> p\<lparr>player_target := Some (bp_x bp, bp_y bp)\<rparr>))"
proof -
  obtain s' where s': "updatePlayers me snap s = Inr s'"
    using updatePlayers_ok [OF assms(1)] by blast
  then show ?thesis
    using updatePlayers_result [OF assms(2) s', of k] assms(3)
    by (cases "map_of snap k"; cases "map_of (frontEndPlayers s) k") simp_all
qed

theorem updatePlayers_remote_players_witness:
  "let s = \<lparr>frontEndPlayers = [(''a'', Player_new 1 1 10 ''red'' ''ann''), (''b'', Player_new 2 2 10 ''blue'' ''bob'')],
      frontEndProjectiles = [],
      playerLabels = [\<lparr>lbl_id = ''a'', lbl_username = ''ann'', lbl_score = 0\<rparr>,
                      \<lparr>lbl_id = ''b'', lbl_username = ''bob'', lbl_score = 0\<rparr>],
      usernameForm_shown = False, keys = (\<lambda>_. False), playerInputs = [],
      sequenceNumber = 0, devicePixelRatio = 1, sent = []\<rparr>;
       snap = [(''a'', \<lparr>bp_x = 7, bp_y = 8, bp_color = ''red'', bp_username = ''ann'',
                bp_score = 1, bp_sequenceNumber = 0\<rparr>)]
   in players_inv s \<and> js_wf snap \<and> ''a'' \<noteq> ''me'' \<and> ''b'' \<noteq> ''me'' \<and>
      (\<exists>s'. updatePlayers ''me'' snap s = Inr s' \<and>
            map_of (frontEndPlayers s') ''a'' =
              Some ((Player_new 1 1 10 ''red'' ''ann'')\<lparr>player_target := Some (7, 8)\<rparr>)) \<and>
      (\<exists>s'. updatePlayers ''me'' snap s = Inr s' \<and> map_of (frontEndPlayers s') ''b'' = None)"
  unfolding Let_def
proof (intro conjI)
  let ?s = "\<lparr>frontEndPlayers = [(''a'', Player_new 1 1 10 ''red'' ''ann''), (''b'', Player_new 2 2 10 ''blue'' ''bob'')],
      frontEndProjectiles = [],
      playerLabels = [\<lparr>lbl_id = ''a'', lbl_username = ''ann'', lbl_score = 0\<rparr>,
                      \<lparr>lbl_id = ''b'', lbl_username = ''bob'', lbl_score = 0\<rparr>],
      usernameForm_shown = False, keys = (\<lambda>_. False), playerInputs = [],
      sequenceNumber = 0, devicePixelRatio = 1, sent = []\<rparr>"
  let ?snap = "[(''a'', \<lparr>bp_x = 7, bp_y = 8, bp_color = ''red'', bp_username = ''ann'',
                bp_score = 1, bp_sequenceNumber = 0\<rparr>)]"
  show h1: "players_inv ?s" by (simp add: players_inv_def)
  show h2: "js_wf ?snap" by simp
  show h3: "''a'' \<noteq> ''me''" by simp
  show h4: "''b'' \<noteq> ''me''" by simp
  show "\<exists>s'. updatePlayers ''me'' ?snap ?s = Inr s' \<and>
            map_of (frontEndPlayers s') ''a'' =
              Some ((Player_new 1 1 10 ''red'' ''ann'')\<lparr>player_target := Some (7, 8)\<rparr>)"
    using updatePlayers_remote_players [OF h1 h2 h3] by simp
  show "\<exists>s'. updatePlayers ''me'' ?snap ?s = Inr s' \<and> map_of (frontEndPlayers s') ''b'' = None"
    using updatePlayers_remote_players [OF h1 h2 h4] by simp
qed

text \<open>C24. After the handler, every player of the snapshot has exactly one
  scoreboard row, and it shows the snapshot's username and score.\<close>

theorem updatePlayers_row_shows_snapshot:
  assumes "players_inv s" "js_wf snap" "map_of snap k = Some bp"
  shows "\<exists>s'. updatePlayers me snap s = Inr s' \<and>
           filter (\<lambda>l. lbl_id l = k) (playerLabels s') =
             [\<lparr>lbl_id = k, lbl_username = bp_username bp, lbl_score = bp_score bp\<rparr>]"
proof -
  obtain s' where s': "updatePlayers me snap s = Inr s'" "players_inv s'"
    using updatePlayers_ok [OF assms(1)] by blast
  then obtain s1 where s1: "updatePlayers_loop me snap s = Inr s1"
      "removePlayers_loop me snap (js_keys (frontEndPlayers s1)) s1 = Inr s'"
    by (auto simp: updatePlayers_def js_then_Inr_iff)
  have "(k, bp) \<in> set snap" using assms(3) by (rule map_of_SomeD)
  then have "row_of k bp \<in> set (playerLabels s1)" using loop_rows [OF s1(1)] assms(2) by blast
  then have row: "row_of k bp \<in> set (playerLabels s')"
    using removePlayers_loop_rows [OF s1(2)] assms(3) by auto
  have "distinct (js_keys (frontEndPlayers s'))" using s'(2) by (simp add: players_inv_def)
  moreover have "mset (label_ids (playerLabels s')) = mset (js_keys (frontEndPlayers s'))"
    using s'(2) by (simp only: players_inv_def)
  ultimately have "distinct (label_ids (playerLabels s'))"
    using mset_eq_imp_distinct_iff by blast
  then have "filter (\<lambda>l. lbl_id l = lbl_id (row_of k bp)) (playerLabels s') = [row_of k bp]"
    using row by (rule filter_unique_key)
  then show ?thesis using s'(1) by simp
qed

theorem updatePlayers_row_shows_snapshot_witness:
  "let s = \<lparr>frontEndPlayers = [(''a'', Player_new 1 1 10 ''red'' ''ann'')], frontEndProjectiles = [],
             playerLabels = [\<lparr>lbl_id = ''a'', lbl_username = ''ann'', lbl_score = 0\<rparr>],
             usernameForm_shown = False, keys = (\<lambda>_. False), playerInputs = [],
             sequenceNumber = 0, devicePixelRatio = 1, sent = []\<rparr>;
       snap = [(''a'', \<lparr>bp_x = 7, bp_y = 8, bp_color = ''red'', bp_username = ''ann'',
                         bp_score = 4, bp_sequenceNumber = 0\<rparr>)]
   in players_inv s \<and> js_wf snap \<and> map_of snap ''a'' = Some (the (map_of snap ''a'')) \<and>
      (\<exists>s'. updatePlayers ''me'' snap s = Inr s' \<and>
            filter (\<lambda>l. lbl_id l = ''a'') (playerLabels s') =
              [\<lparr>lbl_id = ''a'', lbl_username = ''ann'', lbl_score = 4\<rparr>])"
  unfolding Let_def
proof (intro conjI)
  let ?s = "\<lparr>frontEndPlayers = [(''a'', Player_new 1 1 10 ''red'' ''ann'')], frontEndProjectiles = [],
             playerLabels = [\<lparr>lbl_id = ''a'', lbl_username = ''ann'', lbl_score = 0\<rparr>],
             usernameForm_shown = False, keys = (\<lambda>_. False), playerInputs = [],
             sequenceNumber = 0, devicePixelRatio = 1, sent = []\<rparr>"
  let ?snap = "[(''a'', \<lparr>bp_x = 7, bp_y = 8, bp_color = ''red'', bp_username = ''ann'',
                         bp_score = 4, bp_sequenceNumber = 0\<rparr>)]"
  show h1: "players_inv ?s" by (simp add: players_inv_def)
  show h2: "js_wf ?snap" by simp
  show h3: "map_of ?snap ''a'' = Some (the (map_of ?snap ''a''))" by simp
  show "\<exists>s'. updatePlayers ''me'' ?snap ?s = Inr s' \<and>
            filter (\<lambda>l. lbl_id l = ''a'') (playerLabels s') =
              [\<lparr>lbl_id = ''a'', lbl_username = ''ann'', lbl_score = 4\<rparr>]"
    using updatePlayers_row_shows_snapshot [OF h1 h2 h3] by simp
qed

text \<open>C25. When every id of the snapshot is already known (nobody joins in this
  message), the scoreboard ends sorted by non-increasing score: each update
  re-sorts the rows and removals keep the order.  The join theorem below shows
  the hypothesis is needed.\<close>

theorem updatePlayers_sorted_without_joins:
  assumes "players_inv s" "set (js_keys snap) \<subseteq> player_ids s"
  shows "\<exists>s'. updatePlayers me snap s = Inr s' \<and> labels_sorted (playerLabels s')"
proof -
  obtain s' where s': "updatePlayers me snap s = Inr s'" "players_inv s'"
      "player_ids s' = set (js_keys snap)"
    using updatePlayers_ok [OF assms(1)] by blast
  show ?thesis
  proof (cases "snap = []")
    case True
    then have "mset (label_ids (playerLabels s')) = {#}"
      using s'(2,3) by (simp add: players_inv_def)
    then show ?thesis using s'(1) by simp
  next
    case False
    from s'(1) obtain s1 where s1: "updatePlayers_loop me snap s = Inr s1"
        "removePlayers_loop me snap (js_keys (frontEndPlayers s1)) s1 = Inr s'"
      by (auto simp: updatePlayers_def js_then_Inr_iff)
    have "labels_sorted (playerLabels s1)" using loop_sorted [OF s1(1) assms(1) False assms(2)] .
    then show ?thesis using removePlayers_loop_rows [OF s1(2)] s'(1) by blast
  qed
qed

theorem updatePlayers_sorted_without_joins_witness:
  "let s = \<lparr>frontEndPlayers = [(''a'', Player_new 1 1 10 ''red'' ''ann''), (''b'', Player_new 2 2 10 ''blue'' ''bob'')],
             frontEndProjectiles = [],
             playerLabels = [\<lparr>lbl_id = ''a'', lbl_username = ''ann'', lbl_score = 0\<rparr>,
                             \<lparr>lbl_id = ''b'', lbl_username = ''bob'', lbl_score = 0\<rparr>],
             usernameForm_shown = False, keys = (\<lambda>_. False), playerInputs = [],
             sequenceNumber = 0, devicePixelRatio = 1, sent = []\<rparr>;
       snap = [(''a'', \<lparr>bp_x = 1, bp_y = 1, bp_color = ''red'', bp_username = ''ann'', bp_score = 1, bp_sequenceNumber = 0\<rparr>),
               (''b'', \<lparr>bp_x = 2, bp_y = 2, bp_color = ''blue'', bp_username = ''bob'', bp_score = 5, bp_sequenceNumber = 0\<rparr>)]
   in players_inv s \<and> set (js_keys snap) \<subseteq> set (js_keys (frontEndPlayers s)) \<and>
      (\<exists>s'. updatePlayers ''me'' snap s = Inr s' \<and> labels_sorted (playerLabels s'))"
  unfolding Let_def
proof (intro conjI)
  let ?s = "\<lparr>frontEndPlayers = [(''a'', Player_new 1 1 10 ''red'' ''ann''), (''b'', Player_new 2 2 10 ''blue'' ''bob'')],
             frontEndProjectiles = [],
             playerLabels = [\<lparr>lbl_id = ''a'', lbl_username = ''ann'', lbl_score = 0\<rparr>,
                             \<lparr>lbl_id = ''b'', lbl_username = ''bob'', lbl_score = 0\<rparr>],
             usernameForm_shown = False, keys = (\<lambda>_. False), playerInputs = [],
             sequenceNumber = 0, devicePixelRatio = 1, sent = []\<rparr>"
  let ?snap = "[(''a'', \<lparr>bp_x = 1, bp_y = 1, bp_color = ''red'', bp_username = ''ann'', bp_score = 1, bp_sequenceNumber = 0\<rparr>),
               (''b'', \<lparr>bp_x = 2, bp_y = 2, bp_color = ''blue'', bp_username = ''bob'', bp_score = 5, bp_sequenceNumber = 0\<rparr>)]"
  show h1: "players_inv ?s" by (simp add: players_inv_def)
  show h2: "set (js_keys ?snap) \<subseteq> set (js_keys (frontEndPlayers ?s))" by simp
  show "\<exists>s'. updatePlayers ''me'' ?snap ?s = Inr s' \<and> labels_sorted (playerLabels s')"
    using updatePlayers_sorted_without_joins [OF h1 h2] .
qed

text \<open>C18. A snapshot without the local player removes it, whatever else the
  snapshot holds: the handler returns, the local player is no longer in the
  store, its scoreboard row is gone, and the username form is shown again.\<close>

theorem updatePlayers_removes_local_player:
  assumes "players_inv s" "js_wf snap" "map_of snap me = None"
    and "map_of (frontEndPlayers s) me \<noteq> None"
  shows "\<exists>s'. updatePlayers me snap s = Inr s' \<and> map_of (frontEndPlayers s') me = None \<and>
           me \<notin> set (label_ids (playerLabels s')) \<and> usernameForm_shown s'"
proof -
  obtain s' where s': "updatePlayers me snap s = Inr s'" "players_inv s'"
      "player_ids s' = set (js_keys snap)"
    using updatePlayers_ok [OF assms(1)] by blast
  have "map_of (frontEndPlayers s') me = None"
    using updatePlayers_result [OF assms(2) s'(1), of me] assms(3) by simp
  moreover have "me \<notin> set (label_ids (playerLabels s'))"
  proof -
    have "mset (label_ids (playerLabels s')) = mset (js_keys (frontEndPlayers s'))"
      using s'(2) by (simp only: players_inv_def)
    then have "set (label_ids (playerLabels s')) = player_ids s'" by (rule mset_eq_setD)
    then show ?thesis using s'(3) assms(3) by (simp add: map_of_None_iff)
  qed
  moreover have "usernameForm_shown s'"
    using updatePlayers_form [OF assms(2) s'(1)] assms(3,4) by simp
  ultimately show ?thesis using s'(1) by blast
qed

theorem updatePlayers_removes_local_player_witness:
  "let s = \<lparr>frontEndPlayers = [(''me'', Player_new 50 50 10 ''red'' ''ann'')], frontEndProjectiles = [],
             playerLabels = [\<lparr>lbl_id = ''me'', lbl_username = ''ann'', lbl_score = 0\<rparr>],
             usernameForm_shown = False, keys = (\<lambda>_. False), playerInputs = [],
             sequenceNumber = 0, devicePixelRatio = 1, sent = []\<rparr>;
       snap = [(''o'', \<lparr>bp_x = 1, bp_y = 2, bp_color = ''blue'', bp_username = ''bob'', bp_score = 3, bp_sequenceNumber = 0\<rparr>)]
   in players_inv s \<and> js_wf snap \<and> map_of snap ''me'' = None \<and> map_of (frontEndPlayers s) ''me'' \<noteq> None \<and>
      (\<exists>s'. updatePlayers ''me'' snap s = Inr s' \<and> map_of (frontEndPlayers s') ''me'' = None \<and>
            ''me'' \<notin> set (label_ids (playerLabels s')) \<and> usernameForm_shown s')"
  unfolding Let_def
proof (intro conjI)
  let ?s = "\<lparr>frontEndPlayers = [(''me'', Player_new 50 50 10 ''red'' ''ann'')], frontEndProjectiles = [],
             playerLabels = [\<lparr>lbl_id = ''me'', lbl_username = ''ann'', lbl_score = 0\<rparr>],
             usernameForm_shown = False, keys = (\<lambda>_. False), playerInputs = [],
             sequenceNumber = 0, devicePixelRatio = 1, sent = []\<rparr>"
  let ?snap = "[(''o'', \<lparr>bp_x = 1, bp_y = 2, bp_color = ''blue'', bp_username = ''bob'', bp_score = 3, bp_sequenceNumber = 0\<rparr>)]"
  show h1: "players_inv ?s" by (simp add: players_inv_def)
  show h2: "js_wf ?snap" by simp
  show h3: "map_of ?snap ''me'' = None" by simp
  show h4: "map_of (frontEndPlayers ?s) ''me'' \<noteq> None" by simp
  show "\<exists>s'. updatePlayers ''me'' ?snap ?s = Inr s' \<and> map_of (frontEndPlayers s') ''me'' = None \<and>
            ''me'' \<notin> set (label_ids (playerLabels s')) \<and> usernameForm_shown s'"
    using updatePlayers_removes_local_player [OF h1 h2 h3 h4] .
qed

text \<open>C20. The pending-input log survives the local player's removal.  A
  snapshot without the local player removes it but keeps the log; a later
  snapshot with it creates it afresh and keeps the log again; and from then on
  every snapshot for the local player reconciles against the log of the earlier
  session: the target is the reported position with the inputs of that log
  above the echoed number replayed, although the server of the new session has
  never seen them.\<close>

theorem pending_log_survives_rejoin:
  assumes "players_inv s" "js_wf snap1" "map_of snap1 me = None"
    and "js_wf snap2" "map_of snap2 me = Some bp"
  shows "\<exists>s1 s2. updatePlayers me snap1 s = Inr s1 \<and> map_of (frontEndPlayers s1) me = None \<and>
           updatePlayers me snap2 s1 = Inr s2 \<and>
           map_of (frontEndPlayers s2) me =
             Some (Player_new (bp_x bp) (bp_y bp) 10 (bp_color bp) (bp_username bp)) \<and>
           playerInputs s2 = playerInputs s \<and>
           (\<forall>snap3 bp3. js_wf snap3 \<longrightarrow> map_of snap3 me = Some bp3 \<longrightarrow>
              (\<exists>s3. updatePlayers me snap3 s2 = Inr s3 \<and>
                 map_option player_target (map_of (frontEndPlayers s3) me) =
                   Some (Some (replay (trim_inputs (bp_sequenceNumber bp3) (playerInputs s))
                                      (bp_x bp3, bp_y bp3)))))"
proof -
  obtain s1 where s1: "updatePlayers me snap1 s = Inr s1" "players_inv s1"
    using updatePlayers_ok [OF assms(1)] by blast
  obtain s2 where s2: "updatePlayers me snap2 s1 = Inr s2" "players_inv s2"
    using updatePlayers_ok [OF s1(2)] by blast
  have m1: "map_of (frontEndPlayers s1) me = None" "playerInputs s1 = playerInputs s"
    using updatePlayers_result [OF assms(2) s1(1), of me] assms(3) by simp_all
  have m2: "map_of (frontEndPlayers s2) me =
              Some (Player_new (bp_x bp) (bp_y bp) 10 (bp_color bp) (bp_username bp))"
      "playerInputs s2 = playerInputs s"
    using updatePlayers_result [OF assms(4) s2(1), of me] assms(5) m1 by simp_all
  have "\<exists>s3. updatePlayers me snap3 s2 = Inr s3 \<and>
          map_option player_target (map_of (frontEndPlayers s3) me) =
            Some (Some (replay (trim_inputs (bp_sequenceNumber bp3) (playerInputs s)) (bp_x bp3, bp_y bp3)))"
    if "js_wf snap3" "map_of snap3 me = Some bp3" for snap3 bp3
    using updatePlayers_local_target [OF s2(2) that m2(1)] m2(2) by auto
  then show ?thesis using s1(1) s2(1) m1(1) m2 by blast
qed


theorem pending_log_survives_rejoin_witness:
  "let s = \<lparr>frontEndPlayers = [(''me'', Player_new 50 50 10 ''red'' ''ann'')], frontEndProjectiles = [],
             playerLabels = [\<lparr>lbl_id = ''me'', lbl_username = ''ann'', lbl_score = 0\<rparr>],
             usernameForm_shown = False, keys = (\<lambda>_. False), playerInputs = [\<lparr>seq_no = 1, dx = 0, dy = -5\<rparr>],
             sequenceNumber = 1, devicePixelRatio = 1, sent = []\<rparr>;
       bp = \<lparr>bp_x = 50, bp_y = 50, bp_color = ''red'', bp_username = ''ann'', bp_score = 0, bp_sequenceNumber = 0\<rparr>
   in players_inv s \<and> js_wf ([] :: backend_player js_object) \<and> map_of ([] :: backend_player js_object) ''me'' = None \<and>
      js_wf [(''me'', bp)] \<and> map_of [(''me'', bp)] ''me'' = Some bp \<and>
      (\<exists>s1 s2 s3. updatePlayers ''me'' [] s = Inr s1 \<and> map_of (frontEndPlayers s1) ''me'' = None \<and>
         updatePlayers ''me'' [(''me'', bp)] s1 = Inr s2 \<and> updatePlayers ''me'' [(''me'', bp)] s2 = Inr s3 \<and>
         map_option player_target (map_of (frontEndPlayers s3) ''me'') = Some (Some (50, 45)))"
  unfolding Let_def
proof (intro conjI)
  let ?s = "\<lparr>frontEndPlayers = [(''me'', Player_new 50 50 10 ''red'' ''ann'')], frontEndProjectiles = [],
             playerLabels = [\<lparr>lbl_id = ''me'', lbl_username = ''ann'', lbl_score = 0\<rparr>],
             usernameForm_shown = False, keys = (\<lambda>_. False), playerInputs = [\<lparr>seq_no = 1, dx = 0, dy = -5\<rparr>],
             sequenceNumber = 1, devicePixelRatio = 1, sent = []\<rparr>"
  let ?bp = "\<lparr>bp_x = 50, bp_y = 50, bp_color = ''red'', bp_username = ''ann'', bp_score = 0, bp_sequenceNumber = 0\<rparr>"
  show h1: "players_inv ?s" by (simp add: players_inv_def)
  show h2: "js_wf ([] :: backend_player js_object)" by simp
  show h3: "map_of ([] :: backend_player js_object) ''me'' = None" by simp
  show h4: "js_wf [(''me'', ?bp)]" by simp
  show h5: "map_of [(''me'', ?bp)] ''me'' = Some ?bp" by simp
  obtain s1 s2 where r: "updatePlayers ''me'' [] ?s = Inr s1" "map_of (frontEndPlayers s1) ''me'' = None"
      "updatePlayers ''me'' [(''me'', ?bp)] s1 = Inr s2"
    and later: "\<And>snap3 bp3. js_wf snap3 \<Longrightarrow> map_of snap3 ''me'' = Some bp3 \<Longrightarrow>
       \<exists>s3. updatePlayers ''me'' snap3 s2 = Inr s3 \<and>
         map_option player_target (map_of (frontEndPlayers s3) ''me'') =
           Some (Some (replay (trim_inputs (bp_sequenceNumber bp3) (playerInputs ?s)) (bp_x bp3, bp_y bp3)))"
    using pending_log_survives_rejoin [OF h1 h2 h3 h4 h5] by blast
  obtain s3 where s3: "updatePlayers ''me'' [(''me'', ?bp)] s2 = Inr s3"
      "map_option player_target (map_of (frontEndPlayers s3) ''me'') =
         Some (Some (replay (trim_inputs 0 [\<lparr>seq_no = 1, dx = 0, dy = -5\<rparr>]) (50, 50)))"
    using later [OF h4 h5] by auto
  have "replay (trim_inputs 0 [\<lparr>seq_no = 1, dx = 0, dy = -5\<rparr>]) (50, 50) = (50, 45)"
    by (simp add: trim_inputs_def replay_def)
  then show "\<exists>s1 s2 s3. updatePlayers ''me'' [] ?s = Inr s1 \<and> map_of (frontEndPlayers s1) ''me'' = None \<and>
         updatePlayers ''me'' [(''me'', ?bp)] s1 = Inr s2 \<and> updatePlayers ''me'' [(''me'', ?bp)] s2 = Inr s3 \<and>
         map_option player_target (map_of (frontEndPlayers s3) ''me'') = Some (Some (50, 45))"
    using r s3 by auto
qed

text \<open>C21. The scoreboard is re-sorted only when a known player's row is
  updated, and the row of a player who joins is appended after that sort.  For
  a snapshot whose last entry is a player the store does not know, the handler's
  last row is that player's, whatever its score; so when an earlier player of
  the snapshot has a lower score, the rows end out of order.\<close>

theorem updatePlayers_join_row_last:
  assumes "players_inv s" "js_wf (snap @ [(pid, bp)])" "map_of (frontEndPlayers s) pid = None"
  shows "\<exists>s'. updatePlayers me (snap @ [(pid, bp)]) s = Inr s' \<and>
           last (playerLabels s') = \<lparr>lbl_id = pid, lbl_username = bp_username bp, lbl_score = bp_score bp\<rparr> \<and>
           (\<forall>k bk. map_of snap k = Some bk \<longrightarrow> bp_score bk < bp_score bp \<longrightarrow>
              \<not> labels_sorted (playerLabels s'))"
proof -
  let ?snap = "snap @ [(pid, bp)]"
  obtain s' where s': "updatePlayers me ?snap s = Inr s'" using updatePlayers_ok [OF assms(1)] by blast
  then obtain s2 where s2: "updatePlayers_loop me ?snap s = Inr s2"
      "removePlayers_loop me ?snap (js_keys (frontEndPlayers s2)) s2 = Inr s'"
    by (auto simp: updatePlayers_def js_then_Inr_iff)
  then obtain s1 where s1: "updatePlayers_loop me snap s = Inr s1" "updatePlayers_entry me pid bp s1 = Inr s2"
    by (auto simp: updatePlayers_loop_append js_then_Inr_iff)
  have fresh: "map_of snap pid = None" and wf: "js_wf snap" using assms(2) by (auto simp: map_of_None_iff)
  have "map_of (frontEndPlayers s1) pid = None"
    using loop_result [OF wf s1(1), of pid] fresh assms(3) by simp
  then have "playerLabels s2 = playerLabels s1 @ [row_of pid bp]"
    using s1(2) by (auto simp: updatePlayers_entry_def label_add_def)
  moreover have "map_of ?snap (lbl_id (row_of pid bp)) \<noteq> None"
    by (simp add: map_add_def split: option.split)
  ultimately obtain ls where ls: "playerLabels s' = ls @ [row_of pid bp]"
    using removePlayers_loop_last [OF s2(2)] by blast
  have "\<not> labels_sorted (playerLabels s')" if k: "map_of snap k = Some bk" "bp_score bk < bp_score bp" for k bk
  proof
    assume sorted: "labels_sorted (playerLabels s')"
    have "(k, bk) \<in> set ?snap" using k(1) by (auto dest: map_of_SomeD)
    then have "row_of k bk \<in> set (playerLabels s2)" using loop_rows [OF s2(1)] assms(2) by fastforce
    then have "row_of k bk \<in> set (playerLabels s')"
      using removePlayers_loop_rows [OF s2(2)] k(1) by (auto simp: map_add_def)
    moreover have "k \<noteq> pid" using k(1) fresh by auto
    ultimately have "row_of k bk \<in> set ls" using ls by auto
    then show False using sorted ls k(2) by (auto simp: sorted_wrt_append)
  qed
  then show ?thesis using s'(1) ls by auto
qed

theorem updatePlayers_join_row_last_witness:
  "let s = \<lparr>frontEndPlayers = [(''a'', Player_new 0 0 10 ''red'' ''ann'')], frontEndProjectiles = [],
             playerLabels = [\<lparr>lbl_id = ''a'', lbl_username = ''ann'', lbl_score = 1\<rparr>],
             usernameForm_shown = False, keys = (\<lambda>_. False), playerInputs = [],
             sequenceNumber = 0, devicePixelRatio = 1, sent = []\<rparr>;
       ba = \<lparr>bp_x = 0, bp_y = 0, bp_color = ''red'', bp_username = ''ann'', bp_score = 1, bp_sequenceNumber = 0\<rparr>;
       bb = \<lparr>bp_x = 0, bp_y = 0, bp_color = ''blue'', bp_username = ''bob'', bp_score = 5, bp_sequenceNumber = 0\<rparr>
   in players_inv s \<and> js_wf ([(''a'', ba)] @ [(''b'', bb)]) \<and> map_of (frontEndPlayers s) ''b'' = None \<and>
      (\<exists>s'. updatePlayers ''me'' ([(''a'', ba)] @ [(''b'', bb)]) s = Inr s' \<and>
            last (playerLabels s') = \<lparr>lbl_id = ''b'', lbl_username = ''bob'', lbl_score = 5\<rparr> \<and>
            \<not> labels_sorted (playerLabels s'))"
  unfolding Let_def
proof (intro conjI)
  let ?s = "\<lparr>frontEndPlayers = [(''a'', Player_new 0 0 10 ''red'' ''ann'')], frontEndProjectiles = [],
             playerLabels = [\<lparr>lbl_id = ''a'', lbl_username = ''ann'', lbl_score = 1\<rparr>],
             usernameForm_shown = False, keys = (\<lambda>_. False), playerInputs = [],
             sequenceNumber = 0, devicePixelRatio = 1, sent = []\<rparr>"
  let ?ba = "\<lparr>bp_x = 0, bp_y = 0, bp_color = ''red'', bp_username = ''ann'', bp_score = 1, bp_sequenceNumber = 0\<rparr>"
  let ?bb = "\<lparr>bp_x = 0, bp_y = 0, bp_color = ''blue'', bp_username = ''bob'', bp_score = 5, bp_sequenceNumber = 0\<rparr>"
  show h1: "players_inv ?s" by (simp add: players_inv_def)
  show h2: "js_wf ([(''a'', ?ba)] @ [(''b'', ?bb)])" by simp
  show h3: "map_of (frontEndPlayers ?s) ''b'' = None" by simp
  have "map_of [(''a'', ?ba)] ''a'' = Some ?ba" "bp_score ?ba < bp_score ?bb" by simp_all
  then show "\<exists>s'. updatePlayers ''me'' ([(''a'', ?ba)] @ [(''b'', ?bb)]) ?s = Inr s' \<and>
            last (playerLabels s') = \<lparr>lbl_id = ''b'', lbl_username = ''bob'', lbl_score = 5\<rparr> \<and>
            \<not> labels_sorted (playerLabels s')"
    using updatePlayers_join_row_last [OF h1 h2 h3] by fastforce
qed

end
