(* ===== verification/Projectiles.thy ===== *)
theory Projectiles
  imports State
begin

text \<open>
  The \<open>updateProjectiles\<close> socket handler of \<open>frontend.js\<close> (lines 30--55):
  the snapshot diff for projectiles.  The first loop visits the snapshot's ids:
  an unknown id creates a \<open>Projectile\<close> of radius 5 at the server's position,
  coloured like its owning player when that player is known
  (\<open>frontEndPlayers[playerId]?.color\<close>); a known id is dead-reckoned, its
  position advanced by the velocity the snapshot carries.  The second loop
  deletes every projectile the snapshot omits.  The handler cannot throw on a
  well-typed payload: it touches no DOM.
\<close>

text \<open>Lines 34--47: the projectile an entry of the snapshot leaves in the store.\<close>

definition projectile_next ::
  "player js_object \<Rightarrow> backend_projectile \<Rightarrow> projectile option \<Rightarrow> projectile" where
  "projectile_next players bj old =
     (case old of
        None \<Rightarrow> Projectile_new (bj_x bj) (bj_y bj) 5
                  (map_option player_color (map_of players (bj_playerId bj))) (bj_velocity bj)
      | Some pr \<Rightarrow> pr\<lparr>proj_x := proj_x pr + fst (bj_velocity bj),
                     proj_y := proj_y pr + snd (bj_velocity bj)\<rparr>)"

definition updateProjectiles_entry ::
  "player js_object \<Rightarrow> ident \<Rightarrow> backend_projectile \<Rightarrow> projectile js_object \<Rightarrow> projectile js_object" where
  "updateProjectiles_entry players pid bj projs =
     AList.update pid (projectile_next players bj (map_of projs pid)) projs"

fun updateProjectiles_loop ::
  "player js_object \<Rightarrow> backend_projectile js_object \<Rightarrow> projectile js_object \<Rightarrow> projectile js_object" where
  "updateProjectiles_loop players [] projs = projs"
| "updateProjectiles_loop players ((pid, bj) # rest) projs =
     updateProjectiles_loop players rest (updateProjectiles_entry players pid bj projs)"

text \<open>Lines 50--54: \<open>delete frontEndProjectiles[id]\<close> for every id the snapshot lacks.\<close>

fun removeProjectiles_loop ::
  "backend_projectile js_object \<Rightarrow> ident list \<Rightarrow> projectile js_object \<Rightarrow> projectile js_object" where
  "removeProjectiles_loop snap [] projs = projs"
| "removeProjectiles_loop snap (pid # ids) projs =
     (if map_of snap pid = None
      then removeProjectiles_loop snap ids (AList.delete pid projs)
      else removeProjectiles_loop snap ids projs)"

definition updateProjectiles :: "backend_projectile js_object \<Rightarrow> client \<Rightarrow> client" where
  "updateProjectiles snap s =
     (let projs = updateProjectiles_loop (frontEndPlayers s) snap (frontEndProjectiles s)
      in s\<lparr>frontEndProjectiles := removeProjectiles_loop snap (js_keys projs) projs\<rparr>)"

subsection \<open>The two loops\<close>

lemma removeProjectiles_loop_filter:
  "removeProjectiles_loop snap ids projs =
   filter (\<lambda>e. fst e \<notin> set ids \<or> map_of snap (fst e) \<noteq> None) projs"
proof (induction ids arbitrary: projs)
  case Nil
  then show ?case by simp
next
  case (Cons pid ids)
  then show ?case
    by (auto simp: AList.delete_eq case_prod_unfold intro: filter_cong)
qed

lemma removeProjectiles_all:
  "removeProjectiles_loop snap (js_keys projs) projs = filter (\<lambda>e. map_of snap (fst e) \<noteq> None) projs"
  by (auto simp: removeProjectiles_loop_filter intro: filter_cong)

lemma updateProjectiles_loop_keys:
  "fst ` set (updateProjectiles_loop players snap projs) = fst ` set projs \<union> fst ` set snap"
proof (induction snap arbitrary: projs)
  case Nil
  then show ?case by simp
next
  case (Cons e snap)
  obtain pid bj where e: "e = (pid, bj)" by fastforce
  show ?case
    using Cons.IH by (auto simp: e updateProjectiles_entry_def)
qed

lemma updateProjectiles_loop_wf:
  "js_wf projs \<Longrightarrow> js_wf (updateProjectiles_loop players snap projs)"
proof (induction snap arbitrary: projs)
  case Nil
  then show ?case by simp
next
  case (Cons e snap)
  obtain pid bj where e: "e = (pid, bj)" by fastforce
  have "js_wf (updateProjectiles_entry players pid bj projs)"
    using Cons.prems by (simp only: updateProjectiles_entry_def distinct_keys_update)
  then show ?case using Cons.IH by (simp add: e)
qed

lemma updateProjectiles_loop_map_of:
  "js_wf snap \<Longrightarrow>
   map_of (updateProjectiles_loop players snap projs) k =
     (case map_of snap k of
        None \<Rightarrow> map_of projs k
      | Some bj \<Rightarrow> Some (projectile_next players bj (map_of projs k)))"
proof (induction snap arbitrary: projs)
  case Nil
  then show ?case by simp
next
  case (Cons e snap)
  obtain pid bj where e: "e = (pid, bj)" by fastforce
  with Cons.prems have fresh: "map_of snap pid = None" and wf: "js_wf snap"
    by (auto simp: map_of_None_iff)
  let ?projs' = "updateProjectiles_entry players pid bj projs"
  have step: "updateProjectiles_loop players (e # snap) projs = updateProjectiles_loop players snap ?projs'"
    by (simp add: e)
  have upd: "map_of ?projs' k' = (if k' = pid then Some (projectile_next players bj (map_of projs pid))
                                  else map_of projs k')" for k'
    by (simp add: updateProjectiles_entry_def AList.update_conv')
  show ?case
  proof (cases "k = pid")
    case True
    then show ?thesis using Cons.IH [OF wf, of ?projs'] step upd fresh e by simp
  next
    case False
    then show ?thesis using Cons.IH [OF wf, of ?projs'] step upd e by (simp split: option.split)
  qed
qed

lemma frontEndProjectiles_update:
  "frontEndProjectiles (updateProjectiles snap s) =
   filter (\<lambda>e. map_of snap (fst e) \<noteq> None)
     (updateProjectiles_loop (frontEndPlayers s) snap (frontEndProjectiles s))"
  by (simp add: updateProjectiles_def removeProjectiles_all)

lemma map_of_updateProjectiles:
  "js_wf snap \<Longrightarrow>
   map_of (frontEndProjectiles (updateProjectiles snap s)) k =
     (case map_of snap k of
        None \<Rightarrow> None
      | Some bj \<Rightarrow> Some (projectile_next (frontEndPlayers s) bj (map_of (frontEndProjectiles s) k)))"
  unfolding frontEndProjectiles_update map_of_filter_keys [of "\<lambda>k. map_of snap k \<noteq> None"]
  by (cases "map_of snap k") (simp_all add: updateProjectiles_loop_map_of)

subsection \<open>Properties of the handler\<close>

text \<open>C6. After the handler the projectile store holds exactly the ids of the
  snapshot: every new id is created and every omitted id deleted.\<close>

theorem updateProjectiles_store_is_snapshot:
  "set (js_keys (frontEndProjectiles (updateProjectiles snap s))) = set (js_keys snap)"
proof -
  have "fst ` set (frontEndProjectiles (updateProjectiles snap s)) =
        {k \<in> fst ` set (frontEndProjectiles s) \<union> fst ` set snap. map_of snap k \<noteq> None}"
    by (simp only: frontEndProjectiles_update set_keys_filter_keys [of "\<lambda>k. map_of snap k \<noteq> None"]
        updateProjectiles_loop_keys)
  then show ?thesis by (auto simp: map_of_None_iff)
qed

text \<open>C7. A projectile the store already holds is dead-reckoned: its position
  advances by the velocity the snapshot carries for it, and nothing else of it
  changes (the snapshot's position is not used).\<close>

theorem updateProjectiles_dead_reckoning:
  assumes "js_wf snap" "map_of snap pid = Some bj" "map_of (frontEndProjectiles s) pid = Some pr"
  shows "map_of (frontEndProjectiles (updateProjectiles snap s)) pid =
           Some (pr\<lparr>proj_x := proj_x pr + fst (bj_velocity bj), proj_y := proj_y pr + snd (bj_velocity bj)\<rparr>)"
  using map_of_updateProjectiles [OF assms(1), of s pid] assms(2,3)
  by (simp add: projectile_next_def)

theorem updateProjectiles_dead_reckoning_witness:
  "let s = \<lparr>frontEndPlayers = [(''o'', Player_new 0 0 10 ''red'' ''ann'')],
      frontEndProjectiles = [(''p1'', Projectile_new 1 1 5 (Some ''red'') (2, 3)),
                             (''p0'', Projectile_new 0 0 5 None (1, 1))],
      playerLabels = [\<lparr>lbl_id = ''o'', lbl_username = ''ann'', lbl_score = 0\<rparr>],
      usernameForm_shown = False, keys = (\<lambda>_. False), playerInputs = [],
      sequenceNumber = 0, devicePixelRatio = 1, sent = []\<rparr>;
       snap = [(''p1'', \<lparr>bj_x = 9, bj_y = 9, bj_playerId = ''o'', bj_velocity = (2, 3)\<rparr>),
        (''p2'', \<lparr>bj_x = 4, bj_y = 6, bj_playerId = ''o'', bj_velocity = (1, 0)\<rparr>)]
   in js_wf snap \<and> map_of snap ''p1'' = Some (the (map_of snap ''p1'')) \<and>
      map_of (frontEndProjectiles s) ''p1'' = Some (Projectile_new 1 1 5 (Some ''red'') (2, 3)) \<and>
      map_of (frontEndProjectiles (updateProjectiles snap s)) ''p1'' =
        Some (Projectile_new 3 4 5 (Some ''red'') (2, 3))"
  unfolding Let_def
proof (intro conjI)
  let ?s = "\<lparr>frontEndPlayers = [(''o'', Player_new 0 0 10 ''red'' ''ann'')],
      frontEndProjectiles = [(''p1'', Projectile_new 1 1 5 (Some ''red'') (2, 3)),
                             (''p0'', Projectile_new 0 0 5 None (1, 1))],
      playerLabels = [\<lparr>lbl_id = ''o'', lbl_username = ''ann'', lbl_score = 0\<rparr>],
      usernameForm_shown = False, keys = (\<lambda>_. False), playerInputs = [],
      sequenceNumber = 0, devicePixelRatio = 1, sent = []\<rparr>"
  let ?snap = "[(''p1'', \<lparr>bj_x = 9, bj_y = 9, bj_playerId = ''o'', bj_velocity = (2, 3)\<rparr>),
        (''p2'', \<lparr>bj_x = 4, bj_y = 6, bj_playerId = ''o'', bj_velocity = (1, 0)\<rparr>)]"
  show h1: "js_wf ?snap" by simp
  show h2: "map_of ?snap ''p1'' = Some (the (map_of ?snap ''p1''))" by simp
  show h3: "map_of (frontEndProjectiles ?s) ''p1'' = Some (Projectile_new 1 1 5 (Some ''red'') (2, 3))"
    by simp
  show "map_of (frontEndProjectiles (updateProjectiles ?snap ?s)) ''p1'' =
        Some (Projectile_new 3 4 5 (Some ''red'') (2, 3))"
    using updateProjectiles_dead_reckoning [OF h1 h2 h3] by (simp add: Projectile_new_def)
qed

text \<open>C8. A projectile seen for the first time is created at the snapshot's
  position with radius 5 and the snapshot's velocity, coloured like its owning
  player when that player is in the store and uncoloured otherwise.\<close>

theorem updateProjectiles_creates_with_owner_colour:
  assumes "js_wf snap" "map_of snap pid = Some bj" "map_of (frontEndProjectiles s) pid = None"
  shows "map_of (frontEndProjectiles (updateProjectiles snap s)) pid =
           Some (Projectile_new (bj_x bj) (bj_y bj) 5
                   (map_option player_color (map_of (frontEndPlayers s) (bj_playerId bj))) (bj_velocity bj))"
  using map_of_updateProjectiles [OF assms(1), of s pid] assms(2,3)
  by (simp add: projectile_next_def)

theorem updateProjectiles_creates_with_owner_colour_witness:
  "let s = \<lparr>frontEndPlayers = [(''o'', Player_new 0 0 10 ''red'' ''ann'')],
      frontEndProjectiles = [(''p1'', Projectile_new 1 1 5 (Some ''red'') (2, 3)),
                             (''p0'', Projectile_new 0 0 5 None (1, 1))],
      playerLabels = [\<lparr>lbl_id = ''o'', lbl_username = ''ann'', lbl_score = 0\<rparr>],
      usernameForm_shown = False, keys = (\<lambda>_. False), playerInputs = [],
      sequenceNumber = 0, devicePixelRatio = 1, sent = []\<rparr>;
       snap = [(''p1'', \<lparr>bj_x = 9, bj_y = 9, bj_playerId = ''o'', bj_velocity = (2, 3)\<rparr>),
        (''p2'', \<lparr>bj_x = 4, bj_y = 6, bj_playerId = ''o'', bj_velocity = (1, 0)\<rparr>)]
   in js_wf snap \<and> map_of snap ''p2'' = Some (the (map_of snap ''p2'')) \<and>
      map_of (frontEndProjectiles s) ''p2'' = None \<and>
      map_of (frontEndProjectiles (updateProjectiles snap s)) ''p2'' =
        Some (Projectile_new 4 6 5 (Some ''red'') (1, 0)) \<and>
      map_of (frontEndProjectiles (updateProjectiles snap s)) ''p0'' = None"
  unfolding Let_def
proof (intro conjI)
  let ?s = "\<lparr>frontEndPlayers = [(''o'', Player_new 0 0 10 ''red'' ''ann'')],
      frontEndProjectiles = [(''p1'', Projectile_new 1 1 5 (Some ''red'') (2, 3)),
                             (''p0'', Projectile_new 0 0 5 None (1, 1))],
      playerLabels = [\<lparr>lbl_id = ''o'', lbl_username = ''ann'', lbl_score = 0\<rparr>],
      usernameForm_shown = False, keys = (\<lambda>_. False), playerInputs = [],
      sequenceNumber = 0, devicePixelRatio = 1, sent = []\<rparr>"
  let ?snap = "[(''p1'', \<lparr>bj_x = 9, bj_y = 9, bj_playerId = ''o'', bj_velocity = (2, 3)\<rparr>),
        (''p2'', \<lparr>bj_x = 4, bj_y = 6, bj_playerId = ''o'', bj_velocity = (1, 0)\<rparr>)]"
  show h1: "js_wf ?snap" by simp
  show h2: "map_of ?snap ''p2'' = Some (the (map_of ?snap ''p2''))" by simp
  show h3: "map_of (frontEndProjectiles ?s) ''p2'' = None" by simp
  show "map_of (frontEndProjectiles (updateProjectiles ?snap ?s)) ''p2'' =
        Some (Projectile_new 4 6 5 (Some ''red'') (1, 0))"
    using updateProjectiles_creates_with_owner_colour [OF h1 h2 h3] by (simp add: Player_new_def)
  show "map_of (frontEndProjectiles (updateProjectiles ?snap ?s)) ''p0'' = None"
    by (simp add: map_of_updateProjectiles)
qed

end
