(* ===== verification/Animate.thy ===== *)
theory Animate
  imports State
begin

text \<open>
  The render loop \<open>animate\<close> of \<open>frontend.js\<close> (lines 147--170), one call
  per display frame.  Every player with a target moves half of the remaining
  distance towards it on each axis
  (\<open>x += (target.x - x) * 0.5\<close>); the drawing itself (\<open>clearRect\<close>,
  \<open>draw()\<close>) changes no state of the model, and projectiles are only drawn.
  \<^term>\<open>animate\<close> is one frame; \<open>animate ^^ n\<close> is \<open>n\<close> frames without any
  other event in between.
\<close>

definition lerp :: "real \<Rightarrow> real \<Rightarrow> real" where
  "lerp p t = p + (t - p) * 0.5"

text \<open>Lines 156--161.\<close>

definition interpolate :: "player \<Rightarrow> player" where
  "interpolate p =
     (case player_target p of
        None \<Rightarrow> p
      | Some (tx, ty) \<Rightarrow> p\<lparr>player_x := lerp (player_x p) tx, player_y := lerp (player_y p) ty\<rparr>)"

definition animate :: "client \<Rightarrow> client" where
  "animate s = s\<lparr>frontEndPlayers := map (\<lambda>(pid, p). (pid, interpolate p)) (frontEndPlayers s)\<rparr>"

text \<open>Lines 147--149 and 171--172: \<open>animate()\<close> runs once when the script
  loads and every run requests the next frame with
  \<open>requestAnimationFrame(animate)\<close>; \<open>animationId\<close> is stored but never
  passed to \<open>cancelAnimationFrame\<close>.  A display that refreshes \<open>n\<close> times
  with no other event in between runs \<open>n\<close> frames.\<close>

primrec animation_frames :: "nat \<Rightarrow> client \<Rightarrow> client" where
  "animation_frames 0 s = s"
| "animation_frames (Suc n) s = animation_frames n (animate s)"

subsection \<open>One axis\<close>

lemma lerp_gap: "t - lerp p t = (t - p) / 2"
  unfolding lerp_def by (simp add: field_simps)

lemma lerp_between: "min p t \<le> lerp p t \<and> lerp p t \<le> max p t"
  by (cases "p \<le> t") (simp_all add: lerp_def min_def max_def field_simps)

lemma lerp_iter: "t - ((\<lambda>q. lerp q t) ^^ n) p = (t - p) / 2 ^ n"
proof (induction n)
  case 0
  then show ?case by simp
next
  case (Suc n)
  then show ?case by (simp add: lerp_gap)
qed

lemma lerp_iter_tendsto: "(\<lambda>n. ((\<lambda>q. lerp q t) ^^ n) p) \<longlonglongrightarrow> t"
proof -
  have eq: "((\<lambda>q. lerp q t) ^^ n) p = t - (t - p) / 2 ^ n" for n
    using lerp_iter [of t n p] by simp
  have "(\<lambda>n. t - (t - p) / 2 ^ n) \<longlonglongrightarrow> t - 0"
    by (intro tendsto_intros LIMSEQ_divide_realpow_zero) simp
  then show ?thesis by (simp add: eq)
qed

subsection \<open>Players and the store\<close>

lemma interpolate_target [simp]: "player_target (interpolate p) = player_target p"
  by (simp add: interpolate_def split: option.split)

lemma interpolate_iter:
  "player_target p = Some (tx, ty) \<Longrightarrow>
   (interpolate ^^ n) p = p\<lparr>player_x := ((\<lambda>q. lerp q tx) ^^ n) (player_x p),
                            player_y := ((\<lambda>q. lerp q ty) ^^ n) (player_y p)\<rparr>"
  by (induction n) (simp_all add: interpolate_def)

lemma animate_players:
  "frontEndPlayers (animate s) = map (\<lambda>(pid, p). (pid, interpolate p)) (frontEndPlayers s)"
  by (simp add: animate_def)

lemma animate_keys [simp]: "js_keys (frontEndPlayers (animate s)) = js_keys (frontEndPlayers s)"
  by (simp add: animate_def case_prod_unfold)

lemma map_of_animate: "map_of (frontEndPlayers (animate s)) k = map_option interpolate (map_of (frontEndPlayers s) k)"
  by (simp add: animate_def map_of_map)

lemma map_of_animate_iter:
  "map_of (frontEndPlayers ((animate ^^ n) s)) k = map_option (interpolate ^^ n) (map_of (frontEndPlayers s) k)"
  by (induction n) (simp_all add: map_of_animate option.map_comp option.map_ident comp_def)

lemma animate_other_fields [simp]:
  "frontEndProjectiles (animate s) = frontEndProjectiles s"
  "playerLabels (animate s) = playerLabels s"
  "usernameForm_shown (animate s) = usernameForm_shown s"
  "keys (animate s) = keys s"
  "playerInputs (animate s) = playerInputs s"
  "sequenceNumber (animate s) = sequenceNumber s"
  "sent (animate s) = sent s"
  by (simp_all add: animate_def)

lemma animation_frames_funpow: "animation_frames n s = (animate ^^ n) s"
  by (induction n arbitrary: s) (simp_all add: funpow_swap1)

subsection \<open>Properties of the render loop\<close>

text \<open>C9. One frame moves a player with a target half of the remaining distance
  on each axis, without overshooting: the new coordinate lies between the old one
  and the target's; the target itself is kept.\<close>

theorem animate_halves_gap:
  assumes "map_of (frontEndPlayers s) k = Some p" "player_target p = Some (tx, ty)"
  shows "\<exists>p'. map_of (frontEndPlayers (animate s)) k = Some p' \<and>
           player_target p' = Some (tx, ty) \<and>
           tx - player_x p' = (tx - player_x p) / 2 \<and> ty - player_y p' = (ty - player_y p) / 2 \<and>
           min (player_x p) tx \<le> player_x p' \<and> player_x p' \<le> max (player_x p) tx \<and>
           min (player_y p) ty \<le> player_y p' \<and> player_y p' \<le> max (player_y p) ty"
  using assms lerp_gap lerp_between by (simp add: map_of_animate interpolate_def)

theorem animate_halves_gap_witness:
  "let s = \<lparr>frontEndPlayers = [(''a'', (Player_new 0 8 10 ''red'' ''ann'')\<lparr>player_target := Some (4, 0)\<rparr>)],
      frontEndProjectiles = [], playerLabels = [\<lparr>lbl_id = ''a'', lbl_username = ''ann'', lbl_score = 0\<rparr>],
      usernameForm_shown = False, keys = (\<lambda>_. False), playerInputs = [],
      sequenceNumber = 0, devicePixelRatio = 1, sent = []\<rparr>;
       p = (Player_new 0 8 10 ''red'' ''ann'')\<lparr>player_target := Some (4, 0)\<rparr>
   in map_of (frontEndPlayers s) ''a'' = Some p \<and> player_target p = Some (4, 0) \<and>
      map_of (frontEndPlayers (animate s)) ''a'' =
        Some ((Player_new 2 4 10 ''red'' ''ann'')\<lparr>player_target := Some (4, 0)\<rparr>)"
  unfolding Let_def
proof (intro conjI)
  let ?s = "\<lparr>frontEndPlayers = [(''a'', (Player_new 0 8 10 ''red'' ''ann'')\<lparr>player_target := Some (4, 0)\<rparr>)],
      frontEndProjectiles = [], playerLabels = [\<lparr>lbl_id = ''a'', lbl_username = ''ann'', lbl_score = 0\<rparr>],
      usernameForm_shown = False, keys = (\<lambda>_. False), playerInputs = [],
      sequenceNumber = 0, devicePixelRatio = 1, sent = []\<rparr>"
  let ?p = "(Player_new 0 8 10 ''red'' ''ann'')\<lparr>player_target := Some (4, 0)\<rparr>"
  show h1: "map_of (frontEndPlayers ?s) ''a'' = Some ?p" by simp
  show h2: "player_target ?p = Some (4, 0)" by (simp add: Player_new_def)
  obtain p' where "map_of (frontEndPlayers (animate ?s)) ''a'' = Some p'" "player_target p' = Some (4, 0)"
      "4 - player_x p' = (4 - player_x ?p) / 2" "0 - player_y p' = (0 - player_y ?p) / 2"
    using animate_halves_gap [OF h1 h2] by blast
  moreover have "p' = (Player_new 2 4 10 ''red'' ''ann'')\<lparr>player_target := Some (4, 0)\<rparr>"
    using calculation by (simp add: map_of_animate interpolate_def lerp_def Player_new_def)
  ultimately show "map_of (frontEndPlayers (animate ?s)) ''a'' =
        Some ((Player_new 2 4 10 ''red'' ''ann'')\<lparr>player_target := Some (4, 0)\<rparr>)"
    by simp
qed

text \<open>C10. With no other event in between, the frames bring a player with a
  target arbitrarily close to it: after \<open>n\<close> frames the remaining gap is the
  initial gap divided by \<open>2^n\<close>, and the rendered position converges to the
  target (it is never reached exactly when the gap is not zero).\<close>

theorem animate_converges:
  assumes "map_of (frontEndPlayers s) k = Some p" "player_target p = Some (tx, ty)"
  shows "(\<forall>n. \<exists>q. map_of (frontEndPlayers ((animate ^^ n) s)) k = Some q \<and>
               tx - player_x q = (tx - player_x p) / 2 ^ n \<and> ty - player_y q = (ty - player_y p) / 2 ^ n) \<and>
         (\<lambda>n. player_x (the (map_of (frontEndPlayers ((animate ^^ n) s)) k))) \<longlonglongrightarrow> tx \<and>
         (\<lambda>n. player_y (the (map_of (frontEndPlayers ((animate ^^ n) s)) k))) \<longlonglongrightarrow> ty"
proof -
  have at: "map_of (frontEndPlayers ((animate ^^ n) s)) k =
              Some (p\<lparr>player_x := ((\<lambda>q. lerp q tx) ^^ n) (player_x p),
                      player_y := ((\<lambda>q. lerp q ty) ^^ n) (player_y p)\<rparr>)" for n
    using assms by (simp add: map_of_animate_iter interpolate_iter)
  show ?thesis
    by (simp add: at lerp_iter lerp_iter_tendsto)
qed

theorem animate_converges_witness:
  "let s = \<lparr>frontEndPlayers = [(''a'', (Player_new 0 8 10 ''red'' ''ann'')\<lparr>player_target := Some (4, 0)\<rparr>)],
      frontEndProjectiles = [], playerLabels = [\<lparr>lbl_id = ''a'', lbl_username = ''ann'', lbl_score = 0\<rparr>],
      usernameForm_shown = False, keys = (\<lambda>_. False), playerInputs = [],
      sequenceNumber = 0, devicePixelRatio = 1, sent = []\<rparr>;
       p = (Player_new 0 8 10 ''red'' ''ann'')\<lparr>player_target := Some (4, 0)\<rparr>
   in map_of (frontEndPlayers s) ''a'' = Some p \<and> player_target p = Some (4, 0) \<and>
      (\<lambda>n. player_x (the (map_of (frontEndPlayers ((animate ^^ n) s)) ''a''))) \<longlonglongrightarrow> 4"
  unfolding Let_def
proof (intro conjI)
  let ?s = "\<lparr>frontEndPlayers = [(''a'', (Player_new 0 8 10 ''red'' ''ann'')\<lparr>player_target := Some (4, 0)\<rparr>)],
      frontEndProjectiles = [], playerLabels = [\<lparr>lbl_id = ''a'', lbl_username = ''ann'', lbl_score = 0\<rparr>],
      usernameForm_shown = False, keys = (\<lambda>_. False), playerInputs = [],
      sequenceNumber = 0, devicePixelRatio = 1, sent = []\<rparr>"
  let ?p = "(Player_new 0 8 10 ''red'' ''ann'')\<lparr>player_target := Some (4, 0)\<rparr>"
  show h1: "map_of (frontEndPlayers ?s) ''a'' = Some ?p" by simp
  show h2: "player_target ?p = Some (4, 0)" by (simp add: Player_new_def)
  show "(\<lambda>n. player_x (the (map_of (frontEndPlayers ((animate ^^ n) ?s)) ''a''))) \<longlonglongrightarrow> 4"
    using animate_converges [OF h1 h2] by blast
qed


end
