(* ===== verification/Input.thy ===== *)
theory Input
  imports State
begin

text \<open>
  Input sampling and the DOM handlers of \<open>frontend.js\<close>.  The interval
  callback (lines 200--224, every 15 ms) looks at the four movement keys in the
  order W, A, S, D; for each key held it increments \<open>sequenceNumber\<close>, pushes
  \<open>{sequenceNumber, dx, dy}\<close> with displacement \<open>SPEED = 5\<close> onto
  \<open>playerInputs\<close> and emits \<open>keydown {keycode, sequenceNumber}\<close>.  The
  \<open>keydown\<close>/\<open>keyup\<close> listeners (lines 227--270) set and clear the held
  flag of a movement key, but only while the local player is in the store.
  The username form's \<open>submit\<close> listener (lines 273--282) hides the form and
  emits \<open>initGame\<close>.
\<close>

definition SPEED :: real where
  "SPEED = 5"

fun key_delta :: "key \<Rightarrow> point" where
  "key_delta KeyW = (0, - SPEED)"
| "key_delta KeyA = (- SPEED, 0)"
| "key_delta KeyS = (0, SPEED)"
| "key_delta KeyD = (SPEED, 0)"

text \<open>The record pushed for key \<open>k\<close> with sequence number \<open>n\<close>.\<close>

definition input_of :: "nat \<Rightarrow> key \<Rightarrow> input" where
  "input_of n k = \<lparr>seq_no = n, dx = fst (key_delta k), dy = snd (key_delta k)\<rparr>"

text \<open>One \<open>if (keys.k.pressed) { ... }\<close> block of the interval callback.\<close>

definition sample_key :: "key \<Rightarrow> client \<Rightarrow> client" where
  "sample_key k s =
     (if keys s k then
        (let n = Suc (sequenceNumber s)
         in s\<lparr>sequenceNumber := n,
              playerInputs := playerInputs s @ [input_of n k],
              sent := sent s @ [Keydown k n]\<rparr>)
      else s)"

definition input_tick :: "client \<Rightarrow> client" where
  "input_tick s = sample_key KeyD (sample_key KeyS (sample_key KeyA (sample_key KeyW s)))"

text \<open>The \<open>switch (event.code)\<close> of the key listeners.\<close>

definition key_of_code :: "string \<Rightarrow> key option" where
  "key_of_code c =
     (if c = ''KeyW'' then Some KeyW
      else if c = ''KeyA'' then Some KeyA
      else if c = ''KeyS'' then Some KeyS
      else if c = ''KeyD'' then Some KeyD
      else None)"

definition on_keydown :: "ident \<Rightarrow> string \<Rightarrow> client \<Rightarrow> client" where
  "on_keydown me code s =
     (if map_of (frontEndPlayers s) me = None then s
      else (case key_of_code code of
              None \<Rightarrow> s
            | Some k \<Rightarrow> s\<lparr>keys := (keys s)(k := True)\<rparr>))"

definition on_keyup :: "ident \<Rightarrow> string \<Rightarrow> client \<Rightarrow> client" where
  "on_keyup me code s =
     (if map_of (frontEndPlayers s) me = None then s
      else (case key_of_code code of
              None \<Rightarrow> s
            | Some k \<Rightarrow> s\<lparr>keys := (keys s)(k := False)\<rparr>))"

text \<open>Lines 273--282: hide the form and send \<open>initGame\<close> with the canvas's
  backing size, the device ratio and the username typed.\<close>

definition on_submit :: "string \<Rightarrow> client \<Rightarrow> client" where
  "on_submit u s =
     (let cv = canvas_setup (devicePixelRatio s)
      in s\<lparr>usernameForm_shown := False,
           sent := sent s @ [InitGame (canvas_width cv) (canvas_height cv) (devicePixelRatio s) u]\<rparr>)"

text \<open>What the log promises the reconciliation: sequence numbers strictly
  increasing and never above the counter.\<close>

definition inputs_inv :: "client \<Rightarrow> bool" where
  "inputs_inv s \<longleftrightarrow>
     inputs_ordered (playerInputs s) \<and> (\<forall>i\<in>set (playerInputs s). seq_no i \<le> sequenceNumber s)"

subsection \<open>Sampling\<close>

lemma seq_no_input_of [simp]: "seq_no (input_of n k) = n"
  by (simp add: input_of_def)

lemma input_tick_fold: "input_tick s = fold sample_key [KeyW, KeyA, KeyS, KeyD] s"
  by (simp add: input_tick_def)

lemma sample_key_inv: "inputs_inv s \<Longrightarrow> inputs_inv (sample_key k s)"
  by (auto simp: sample_key_def inputs_inv_def sorted_wrt_append)

lemma sample_keys_inv: "inputs_inv s \<Longrightarrow> inputs_inv (fold sample_key ks s)"
  by (induction ks arbitrary: s) (simp_all add: sample_key_inv)

lemma sample_key_frame [simp]:
  "keys (sample_key k s) = keys s"
  "frontEndPlayers (sample_key k s) = frontEndPlayers s"
  "frontEndProjectiles (sample_key k s) = frontEndProjectiles s"
  "playerLabels (sample_key k s) = playerLabels s"
  "usernameForm_shown (sample_key k s) = usernameForm_shown s"
  "devicePixelRatio (sample_key k s) = devicePixelRatio s"
  by (simp_all add: sample_key_def Let_def)

lemma sample_keys_frame [simp]:
  "keys (fold sample_key ks s) = keys s"
  "frontEndPlayers (fold sample_key ks s) = frontEndPlayers s"
  "frontEndProjectiles (fold sample_key ks s) = frontEndProjectiles s"
  "playerLabels (fold sample_key ks s) = playerLabels s"
  "usernameForm_shown (fold sample_key ks s) = usernameForm_shown s"
  "devicePixelRatio (fold sample_key ks s) = devicePixelRatio s"
  by (induction ks arbitrary: s) simp_all

text \<open>The effect of sampling a list of keys: the held ones, in order, get the
  next sequence numbers; each logs one input and sends one message.\<close>

lemma sample_keys_effect:
  "fold sample_key ks s =
     (let held = filter (keys s) ks; n = sequenceNumber s; ns = [Suc n..<Suc n + length held]
      in s\<lparr>sequenceNumber := n + length held,
           playerInputs := playerInputs s @ map2 input_of ns held,
           sent := sent s @ map2 (\<lambda>j k. Keydown k j) ns held\<rparr>)"
proof (induction ks arbitrary: s)
  case Nil
  then show ?case by simp
next
  case (Cons k ks)
  show ?case
  proof (cases "keys s k")
    case True
    let ?s1 = "sample_key k s"
    have s1: "sequenceNumber ?s1 = Suc (sequenceNumber s)"
      "playerInputs ?s1 = playerInputs s @ [input_of (Suc (sequenceNumber s)) k]"
      "sent ?s1 = sent s @ [Keydown k (Suc (sequenceNumber s))]"
      using True by (simp_all add: sample_key_def)
    have ns: "[Suc (sequenceNumber s)..<Suc (sequenceNumber s) + Suc (length (filter (keys s) ks))] =
              Suc (sequenceNumber s) #
              [Suc (Suc (sequenceNumber s))..<Suc (Suc (sequenceNumber s)) + length (filter (keys s) ks)]"
      by (simp add: upt_rec)
    show ?thesis
      using Cons.IH [of ?s1] True s1 ns by (simp add: Let_def)
  next
    case False
    then show ?thesis using Cons.IH [of s] by (simp add: sample_key_def)
  qed
qed

text \<open>A held key gets a message and a log entry on every tick, under a fresh
  number, whatever else the state holds.\<close>

lemma input_tick_held:
  assumes "keys s k"
  shows "\<exists>n ms ins. sent (input_tick s) = sent s @ ms \<and> playerInputs (input_tick s) = playerInputs s @ ins \<and>
           Keydown k n \<in> set ms \<and> input_of n k \<in> set ins"
proof -
  let ?held = "filter (keys s) [KeyW, KeyA, KeyS, KeyD]"
  let ?ns = "[Suc (sequenceNumber s)..<Suc (sequenceNumber s) + length ?held]"
  have "k \<in> set ?held" using assms by (cases k) auto
  then obtain j where j: "j < length ?held" "?held ! j = k" by (auto simp: in_set_conv_nth)
  then have "(?ns ! j, k) \<in> set (zip ?ns ?held)" by (auto simp: set_zip)
  then have "Keydown k (?ns ! j) \<in> set (map2 (\<lambda>j k. Keydown k j) ?ns ?held)"
      "input_of (?ns ! j) k \<in> set (map2 input_of ?ns ?held)"
    by (rule in_set_map2I)+
  moreover have "sent (input_tick s) = sent s @ map2 (\<lambda>j k. Keydown k j) ?ns ?held"
      "playerInputs (input_tick s) = playerInputs s @ map2 input_of ?ns ?held"
    by (simp only: input_tick_fold sample_keys_effect Let_def, simp)+
  ultimately show ?thesis by blast
qed

subsection \<open>Properties of the interval callback\<close>

text \<open>C11. One tick of the input interval gives each held movement key, in the
  order W, A, S, D, the next sequence number; it logs one input with that number
  and the key's displacement at \<open>SPEED = 5\<close> (W up, \<open>dy = -5\<close>; A left,
  \<open>dx = -5\<close>; S down, \<open>dy = 5\<close>; D right, \<open>dx = 5\<close>) and emits one
  \<open>keydown\<close> message carrying the same number and key.  The counter advances
  by the number of held keys; nothing else changes.\<close>

theorem input_tick_effect:
  "input_tick s =
     (let held = filter (keys s) [KeyW, KeyA, KeyS, KeyD]; n = sequenceNumber s;
          ns = [Suc n..<Suc n + length held]
      in s\<lparr>sequenceNumber := n + length held,
           playerInputs := playerInputs s @
             map2 (\<lambda>j k. \<lparr>seq_no = j,
                             dx = (case k of KeyA \<Rightarrow> -5 | KeyD \<Rightarrow> 5 | _ \<Rightarrow> 0),
                             dy = (case k of KeyW \<Rightarrow> -5 | KeyS \<Rightarrow> 5 | _ \<Rightarrow> 0)\<rparr>) ns held,
           sent := sent s @ map2 (\<lambda>j k. Keydown k j) ns held\<rparr>)"
proof -
  have "input_of = (\<lambda>j k. \<lparr>seq_no = j,
                             dx = (case k of KeyA \<Rightarrow> -5 | KeyD \<Rightarrow> 5 | _ \<Rightarrow> 0),
                             dy = (case k of KeyW \<Rightarrow> -5 | KeyS \<Rightarrow> 5 | _ \<Rightarrow> 0)\<rparr>)"
  proof (intro ext)
    show "input_of j k = \<lparr>seq_no = j,
                             dx = (case k of KeyA \<Rightarrow> -5 | KeyD \<Rightarrow> 5 | _ \<Rightarrow> 0),
                             dy = (case k of KeyW \<Rightarrow> -5 | KeyS \<Rightarrow> 5 | _ \<Rightarrow> 0)\<rparr>" for j k
      by (cases k) (simp_all add: input_of_def SPEED_def)
  qed
  then show ?thesis by (simp only: input_tick_fold sample_keys_effect)
qed

end
