(* ===== verification/Client.thy ===== *)
theory Client
  imports Players Projectiles Animate Input
begin

text \<open>
  The whole client as an event-driven machine.  \<open>frontend.js\<close> registers
  callbacks for three event sources that the browser interleaves on one thread
  and never runs concurrently: socket messages (\<open>updatePlayers\<close>,
  \<open>updateProjectiles\<close>), the display-refresh callback (\<open>animate\<close>), the
  15 ms interval, and the DOM listeners (\<open>keydown\<close>, \<open>keyup\<close>,
  \<open>submit\<close>).  Each callback runs to completion, so a run of the client is a
  sequence of events, each handled by \<^term>\<open>client_step\<close>.  An uncaught
  \<^const>\<open>TypeError\<close> ends the model's run.  The reachable states are those
  from the initial state by steps that return.  The theorems give the invariants
  of every reachable state, and show that a movement key held when the local
  player is removed stays held, because the \<open>keyup\<close> listener is gated on the
  player and the interval is not.
\<close>

datatype event =
    OnUpdatePlayers "backend_player js_object"
  | OnUpdateProjectiles "backend_projectile js_object"
  | OnFrame
  | OnInterval
  | OnKeydown string
  | OnKeyup string
  | OnSubmit string

definition client_step :: "ident \<Rightarrow> client \<Rightarrow> event \<Rightarrow> js_error + client" where
  "client_step me s ev =
     (case ev of
        OnUpdatePlayers snap \<Rightarrow> updatePlayers me snap s
      | OnUpdateProjectiles snap \<Rightarrow> Inr (updateProjectiles snap s)
      | OnFrame \<Rightarrow> Inr (animate s)
      | OnInterval \<Rightarrow> Inr (input_tick s)
      | OnKeydown c \<Rightarrow> Inr (on_keydown me c s)
      | OnKeyup c \<Rightarrow> Inr (on_keyup me c s)
      | OnSubmit u \<Rightarrow> Inr (on_submit u s))"

fun run :: "ident \<Rightarrow> client \<Rightarrow> event list \<Rightarrow> js_error + client" where
  "run me s [] = Inr s"
| "run me s (e # es) = js_then (client_step me s e) (\<lambda>s'. run me s' es)"

inductive reachable :: "ident \<Rightarrow> real option \<Rightarrow> client \<Rightarrow> bool" for me r where
  init: "reachable me r (client_init r)"
| step: "reachable me r s \<Longrightarrow> client_step me s e = Inr s' \<Longrightarrow> reachable me r s'"

text \<open>The client invariant: one scoreboard row per stored player, well-formed
  stores, an ordered pending log bounded by the counter.\<close>

definition client_inv :: "client \<Rightarrow> bool" where
  "client_inv s \<longleftrightarrow> players_inv s \<and> js_wf (frontEndProjectiles s) \<and> inputs_inv s"

text \<open>The sequence numbers of the \<open>keydown\<close> messages sent, in order.\<close>

fun keydown_numbers :: "message list \<Rightarrow> nat list" where
  "keydown_numbers [] = []"
| "keydown_numbers (Keydown k n # ms) = n # keydown_numbers ms"
| "keydown_numbers (InitGame w h r u # ms) = keydown_numbers ms"

text \<open>The wire contract between the log and the socket: the \<open>keydown\<close> messages
  carry the numbers \<open>1, ..., sequenceNumber\<close> in order, and every pending input
  was announced to the server with the key whose displacement it records.\<close>

definition wire_inv :: "client \<Rightarrow> bool" where
  "wire_inv s \<longleftrightarrow>
     keydown_numbers (sent s) = [1..<Suc (sequenceNumber s)] \<and>
     (\<forall>i\<in>set (playerInputs s). \<exists>k. Keydown k (seq_no i) \<in> set (sent s) \<and> i = input_of (seq_no i) k)"

subsection \<open>Runs\<close>

lemma run_append:
  "run me s (xs @ ys) = js_then (run me s xs) (\<lambda>s'. run me s' ys)"
  by (induction xs arbitrary: s) (auto simp: js_then_def split: sum.split)

lemma reachable_run: "reachable me r s \<Longrightarrow> run me s es = Inr s' \<Longrightarrow> reachable me r s'"
proof (induction es arbitrary: s)
  case Nil
  then show ?case by simp
next
  case (Cons e es)
  then obtain s1 where "client_step me s e = Inr s1" "run me s1 es = Inr s'"
    by (auto simp: js_then_Inr_iff)
  then show ?case using Cons reachable.step by blast
qed

subsection \<open>Each event keeps the invariant\<close>

lemma players_inv_cong:
  "frontEndPlayers s' = frontEndPlayers s \<Longrightarrow> playerLabels s' = playerLabels s \<Longrightarrow>
   players_inv s' = players_inv s"
  by (simp add: players_inv_def)

lemma inputs_inv_cong:
  "playerInputs s' = playerInputs s \<Longrightarrow> sequenceNumber s' = sequenceNumber s \<Longrightarrow>
   inputs_inv s' = inputs_inv s"
  by (simp add: inputs_inv_def)

lemma client_inv_cong:
  "frontEndPlayers s' = frontEndPlayers s \<Longrightarrow> playerLabels s' = playerLabels s \<Longrightarrow>
   frontEndProjectiles s' = frontEndProjectiles s \<Longrightarrow> playerInputs s' = playerInputs s \<Longrightarrow>
   sequenceNumber s' = sequenceNumber s \<Longrightarrow> client_inv s' = client_inv s"
  by (simp add: client_inv_def players_inv_def inputs_inv_def)

lemma players_inv_animate: "players_inv (animate s) = players_inv s"
  unfolding players_inv_def by (simp only: animate_keys animate_other_fields)

lemma inputs_inv_frame:
  assumes "players_frame s s'" "inputs_inv s"
  shows "inputs_inv s'"
proof -
  obtain k where k: "playerInputs s' = drop k (playerInputs s)" "sequenceNumber s' = sequenceNumber s"
    using assms(1) by (auto simp: players_frame_def)
  have "inputs_ordered (drop k (playerInputs s))"
    using assms(2) by (simp add: inputs_inv_def sorted_wrt_drop drop_map [symmetric])
  moreover have "set (drop k (playerInputs s)) \<subseteq> set (playerInputs s)"
    by (rule set_drop_subset)
  ultimately show ?thesis using assms(2) k by (auto simp: inputs_inv_def)
qed

lemma client_inv_init: "client_inv (client_init r)"
  by (simp add: client_inv_def client_init_def players_inv_def inputs_inv_def)

lemma updatePlayers_inv:
  assumes "client_inv s" "updatePlayers me snap s = Inr s'"
  shows "client_inv s'"
proof -
  have "players_inv s'" using updatePlayers_ok [of s me snap] assms by (auto simp: client_inv_def)
  moreover have "players_frame s s'" using assms(2) by (rule updatePlayers_frame)
  ultimately show ?thesis using assms(1) inputs_inv_frame
    by (auto simp: client_inv_def players_frame_def)
qed

lemma updateProjectiles_inv:
  assumes "client_inv s"
  shows "client_inv (updateProjectiles snap s)"
proof -
  let ?s' = "updateProjectiles snap s"
  have same: "frontEndPlayers ?s' = frontEndPlayers s" "playerLabels ?s' = playerLabels s"
      "playerInputs ?s' = playerInputs s" "sequenceNumber ?s' = sequenceNumber s"
    by (simp_all add: updateProjectiles_def Let_def)
  have "js_wf (frontEndProjectiles ?s')"
    using assms by (simp add: client_inv_def frontEndProjectiles_update updateProjectiles_loop_wf)
  then show ?thesis
    using assms players_inv_cong [OF same(1,2)] inputs_inv_cong [OF same(3,4)]
    by (simp add: client_inv_def)
qed

lemma animate_inv: "client_inv s \<Longrightarrow> client_inv (animate s)"
  by (simp add: client_inv_def players_inv_animate inputs_inv_def)

lemma input_tick_inv:
  assumes "client_inv s"
  shows "client_inv (input_tick s)"
proof -
  have "players_inv (input_tick s) = players_inv s"
    by (rule players_inv_cong) (simp_all add: input_tick_fold)
  moreover have "inputs_inv (input_tick s)"
    using assms sample_keys_inv [of s "[KeyW, KeyA, KeyS, KeyD]"]
    by (simp add: client_inv_def input_tick_fold)
  ultimately show ?thesis using assms by (simp add: client_inv_def input_tick_fold)
qed

lemma on_keydown_inv: "client_inv (on_keydown me c s) = client_inv s"
  by (rule client_inv_cong) (simp_all add: on_keydown_def split: option.split)

lemma on_keyup_inv: "client_inv (on_keyup me c s) = client_inv s"
  by (rule client_inv_cong) (simp_all add: on_keyup_def split: option.split)

lemma on_submit_inv: "client_inv (on_submit u s) = client_inv s"
  by (rule client_inv_cong) (simp_all add: on_submit_def Let_def)

lemma client_step_inv:
  assumes "client_inv s" "client_step me s e = Inr s'"
  shows "client_inv s'"
proof (cases e)
  case (OnUpdatePlayers snap)
  then show ?thesis using assms updatePlayers_inv by (simp add: client_step_def)
qed (use assms in \<open>auto simp: client_step_def updateProjectiles_inv animate_inv input_tick_inv
      on_keydown_inv on_keyup_inv on_submit_inv\<close>)

lemma client_step_total:
  assumes "client_inv s"
  shows "\<exists>s'. client_step me s e = Inr s'"
proof (cases e)
  case (OnUpdatePlayers snap)
  obtain s' where "updatePlayers me snap s = Inr s'"
    using updatePlayers_ok [of s me snap] assms by (auto simp: client_inv_def)
  then show ?thesis using OnUpdatePlayers by (simp add: client_step_def)
qed (simp_all add: client_step_def)

lemma reachable_client_inv: "reachable me r s \<Longrightarrow> client_inv s"
proof (induction rule: reachable.induct)
  case init
  show ?case by (rule client_inv_init)
next
  case (step s e s')
  from step.IH step.hyps(2) show ?case by (rule client_step_inv)
qed

subsection \<open>The wire contract\<close>

lemma keydown_numbers_append [simp]:
  "keydown_numbers (xs @ ys) = keydown_numbers xs @ keydown_numbers ys"
  by (induction xs rule: keydown_numbers.induct) simp_all

lemma wire_inv_init: "wire_inv (client_init r)"
  by (simp add: wire_inv_def client_init_def)

lemma wire_inv_frame:
  assumes "wire_inv s" "sent s' = sent s" "sequenceNumber s' = sequenceNumber s"
    and "\<exists>k. playerInputs s' = drop k (playerInputs s)"
  shows "wire_inv s'"
proof -
  obtain k where k: "playerInputs s' = drop k (playerInputs s)" using assms(4) by blast
  have "\<exists>k'. Keydown k' (seq_no i) \<in> set (sent s') \<and> i = input_of (seq_no i) k'"
    if "i \<in> set (playerInputs s')" for i
  proof -
    have "i \<in> set (playerInputs s)" using that k by (simp add: in_set_dropD)
    then show ?thesis using assms(1,2) by (simp add: wire_inv_def)
  qed
  then show ?thesis using assms(1,2,3) by (simp add: wire_inv_def)
qed

lemma sample_key_wire: "wire_inv s \<Longrightarrow> wire_inv (sample_key k s)"
  by (auto simp: wire_inv_def sample_key_def Let_def)

lemma sample_keys_wire: "wire_inv s \<Longrightarrow> wire_inv (fold sample_key ks s)"
  by (induction ks arbitrary: s) (simp_all add: sample_key_wire)

lemma on_submit_wire: "wire_inv s \<Longrightarrow> wire_inv (on_submit u s)"
  by (auto simp: wire_inv_def on_submit_def Let_def)

text \<open>What a step can do to the counter, the log and the socket: the socket
  handlers, the frame and the key listeners leave counter and messages alone and
  at most drop a prefix of the log; only the submit and the interval send.\<close>

lemma client_step_shape:
  assumes "client_step me s e = Inr s'"
  shows "(sent s' = sent s \<and> sequenceNumber s' = sequenceNumber s \<and>
          (\<exists>j. playerInputs s' = drop j (playerInputs s))) \<or>
         (\<exists>u. s' = on_submit u s) \<or> s' = input_tick s"
proof (cases e)
  case (OnUpdatePlayers snap)
  then have "players_frame s s'" using assms updatePlayers_frame by (simp add: client_step_def)
  then show ?thesis by (simp add: players_frame_def)
qed (use assms in \<open>auto simp: client_step_def updateProjectiles_def Let_def on_keydown_def
      on_keyup_def split: option.split\<close>)

lemma client_step_wire:
  assumes "wire_inv s" "client_step me s e = Inr s'"
  shows "wire_inv s'"
  using client_step_shape [OF assms(2)]
proof (elim disjE exE conjE)
  fix j
  assume "sent s' = sent s" "sequenceNumber s' = sequenceNumber s" "playerInputs s' = drop j (playerInputs s)"
  then show ?thesis using wire_inv_frame [OF assms(1)] by blast
next
  fix u
  assume "s' = on_submit u s"
  then show ?thesis using on_submit_wire [OF assms(1)] by simp
next
  assume "s' = input_tick s"
  then show ?thesis using sample_keys_wire [OF assms(1), of "[KeyW, KeyA, KeyS, KeyD]"]
    by (simp add: input_tick_def)
qed

lemma reachable_wire_inv: "reachable me r s \<Longrightarrow> wire_inv s"
proof (induction rule: reachable.induct)
  case init
  show ?case by (rule wire_inv_init)
next
  case (step s e s')
  from step.IH step.hyps(2) show ?case by (rule client_step_wire)
qed

subsection \<open>The device ratio\<close>

lemma client_step_dpr:
  assumes "client_step me s e = Inr s'"
  shows "devicePixelRatio s' = devicePixelRatio s"
proof (cases e)
  case (OnUpdatePlayers snap)
  then have "players_frame s s'" using assms updatePlayers_frame by (simp add: client_step_def)
  then show ?thesis by (simp add: players_frame_def)
qed (use assms in \<open>auto simp: client_step_def updateProjectiles_def Let_def animate_def input_tick_fold
      on_keydown_def on_keyup_def on_submit_def split: option.split\<close>)

lemma reachable_dpr: "reachable me r s \<Longrightarrow> devicePixelRatio s = pixel_ratio r"
proof (induction rule: reachable.induct)
  case init
  show ?case by (simp add: client_init_def)
next
  case (step s e s')
  then show ?case using client_step_dpr by metis
qed

lemma pixel_ratio_nonzero: "pixel_ratio r \<noteq> 0"
  by (simp add: pixel_ratio_def split: option.split)

text \<open>The definitions a concrete run unfolds to; used with \<open>cong: js_then_weak_cong\<close>.\<close>

lemmas client_eval_simps = client_step_def updatePlayers_def updatePlayers_entry_def client_init_def
  label_add_def labels_sort_sort_key new_target_def reconcile_def trim_inputs_def splice0_def replay_def
  on_keydown_def on_keyup_def on_submit_def key_of_code_def input_tick_def sample_key_def input_of_def
  SPEED_def pixel_ratio_def removePlayer_def updateProjectiles_def updateProjectiles_entry_def
  projectile_next_def Player_new_def Projectile_new_def canvas_setup_def Let_def

subsection \<open>Properties of the running client\<close>

lemma first_join_step:
  "client_step ''me'' (client_init None) (OnUpdatePlayers [(''me'', \<lparr>bp_x = 50, bp_y = 50, bp_color = ''red'', bp_username = ''ann'', bp_score = 0, bp_sequenceNumber = 0\<rparr>)]) =
   Inr ((client_init None)\<lparr>frontEndPlayers := [(''me'', Player_new 50 50 10 ''red'' ''ann'')],
        playerLabels := [\<lparr>lbl_id = ''me'', lbl_username = ''ann'', lbl_score = 0\<rparr>]\<rparr>)"
  by (simp add: client_step_def updatePlayers_def updatePlayers_entry_def client_init_def label_add_def)

lemma second_snapshot_step:
  "client_step ''me'' ((client_init None)\<lparr>frontEndPlayers := [(''me'', Player_new 50 50 10 ''red'' ''ann'')],
        playerLabels := [\<lparr>lbl_id = ''me'', lbl_username = ''ann'', lbl_score = 0\<rparr>]\<rparr>) (OnUpdatePlayers [(''me'', \<lparr>bp_x = 50, bp_y = 50, bp_color = ''red'', bp_username = ''ann'', bp_score = 0, bp_sequenceNumber = 0\<rparr>)]) =
   Inr ((client_init None)\<lparr>frontEndPlayers :=
          [(''me'', (Player_new 50 50 10 ''red'' ''ann'')\<lparr>player_target := Some (50, 50)\<rparr>)],
        playerLabels := [\<lparr>lbl_id = ''me'', lbl_username = ''ann'', lbl_score = 0\<rparr>]\<rparr>)"
  by (simp add: client_step_def updatePlayers_def updatePlayers_entry_def client_init_def
      labels_sort_sort_key new_target_def reconcile_def trim_inputs_def replay_def)

lemma first_join_reachable: "reachable ''me'' None ((client_init None)\<lparr>frontEndPlayers := [(''me'', Player_new 50 50 10 ''red'' ''ann'')],
        playerLabels := [\<lparr>lbl_id = ''me'', lbl_username = ''ann'', lbl_score = 0\<rparr>]\<rparr>)"
  using reachable.step [OF reachable.init first_join_step] .

text \<open>C12. No handler of a reachable client throws: every event is handled to
  completion (the \<^const>\<open>TypeError\<close> branches of the scoreboard code are dead).\<close>

theorem reachable_step_never_throws:
  assumes "reachable me r s"
  shows "\<exists>s'. client_step me s e = Inr s'"
  using client_step_total [OF reachable_client_inv [OF assms]] .

theorem reachable_step_never_throws_witness:
  "reachable ''me'' None ((client_init None)\<lparr>frontEndPlayers := [(''me'', Player_new 50 50 10 ''red'' ''ann'')],
        playerLabels := [\<lparr>lbl_id = ''me'', lbl_username = ''ann'', lbl_score = 0\<rparr>]\<rparr>) \<and>
   (\<exists>s'. client_step ''me'' ((client_init None)\<lparr>frontEndPlayers := [(''me'', Player_new 50 50 10 ''red'' ''ann'')],
        playerLabels := [\<lparr>lbl_id = ''me'', lbl_username = ''ann'', lbl_score = 0\<rparr>]\<rparr>) (OnUpdatePlayers []) = Inr s')"
  using first_join_reachable reachable_step_never_throws [OF first_join_reachable] by blast

text \<open>C13. In every reachable state the store has no id twice and there is
  exactly one scoreboard row per stored player, and no other row.\<close>

theorem reachable_one_row_per_player:
  assumes "reachable me r s"
  shows "js_wf (frontEndPlayers s) \<and> mset (label_ids (playerLabels s)) = mset (js_keys (frontEndPlayers s))"
  using reachable_client_inv [OF assms] by (simp add: client_inv_def players_inv_def)

theorem reachable_one_row_per_player_witness:
  "reachable ''me'' None ((client_init None)\<lparr>frontEndPlayers := [(''me'', Player_new 50 50 10 ''red'' ''ann'')],
        playerLabels := [\<lparr>lbl_id = ''me'', lbl_username = ''ann'', lbl_score = 0\<rparr>]\<rparr>) \<and>
   mset (label_ids [\<lparr>lbl_id = ''me'', lbl_username = ''ann'', lbl_score = 0\<rparr>]) = mset [''me'']"
  using first_join_reachable reachable_one_row_per_player [OF first_join_reachable] by simp

text \<open>C14. In every reachable state the pending-input log is ordered by strictly
  increasing sequence number and holds no number above the counter, as the
  reconciliation's trimming assumes.\<close>

theorem reachable_inputs_ordered:
  assumes "reachable me r s"
  shows "sorted_wrt (<) (map seq_no (playerInputs s)) \<and> (\<forall>i\<in>set (playerInputs s). seq_no i \<le> sequenceNumber s)"
  using reachable_client_inv [OF assms] by (simp add: client_inv_def inputs_inv_def)

theorem reachable_inputs_ordered_witness:
  "reachable ''me'' None (client_init None) \<and> sorted_wrt (<) (map seq_no (playerInputs (client_init None)))"
  using reachable.init reachable_inputs_ordered [OF reachable.init] by blast

text \<open>C15. After an \<open>updatePlayers\<close> message the store holds a player exactly
  for each id of the snapshot: one is created for each new id and one deleted for
  each omitted id.\<close>

theorem updatePlayers_store_is_snapshot:
  assumes "reachable me r s" "client_step me s (OnUpdatePlayers snap) = Inr s'"
  shows "set (js_keys (frontEndPlayers s')) = set (js_keys snap)"
proof -
  have "players_inv s" using reachable_client_inv [OF assms(1)] by (simp add: client_inv_def)
  then obtain s'' where "updatePlayers me snap s = Inr s''" "set (js_keys (frontEndPlayers s'')) = set (js_keys snap)"
    using updatePlayers_ok by fastforce
  then show ?thesis using assms(2) by (simp add: client_step_def)
qed

theorem updatePlayers_store_is_snapshot_witness:
  "reachable ''me'' None (client_init None) \<and>
   client_step ''me'' (client_init None) (OnUpdatePlayers [(''me'', \<lparr>bp_x = 50, bp_y = 50, bp_color = ''red'', bp_username = ''ann'', bp_score = 0, bp_sequenceNumber = 0\<rparr>)]) = Inr ((client_init None)\<lparr>frontEndPlayers := [(''me'', Player_new 50 50 10 ''red'' ''ann'')],
        playerLabels := [\<lparr>lbl_id = ''me'', lbl_username = ''ann'', lbl_score = 0\<rparr>]\<rparr>) \<and>
   set (js_keys (frontEndPlayers ((client_init None)\<lparr>frontEndPlayers := [(''me'', Player_new 50 50 10 ''red'' ''ann'')],
        playerLabels := [\<lparr>lbl_id = ''me'', lbl_username = ''ann'', lbl_score = 0\<rparr>]\<rparr>))) = {''me''}"
  using reachable.init first_join_step updatePlayers_store_is_snapshot [OF reachable.init first_join_step]
  by simp

text \<open>C23. In every reachable state the \<open>keydown\<close> messages sent so far carry
  exactly the sequence numbers \<open>1, ..., sequenceNumber\<close>, each once and in
  order, and every input still pending was announced to the server under its own
  number with the key whose displacement it records: the replay only re-applies
  inputs the server has been told about.\<close>

theorem reachable_wire_contract:
  assumes "reachable me r s"
  shows "keydown_numbers (sent s) = [1..<Suc (sequenceNumber s)] \<and>
         (\<forall>i\<in>set (playerInputs s). \<exists>k. Keydown k (seq_no i) \<in> set (sent s) \<and> i = input_of (seq_no i) k)"
  using reachable_wire_inv [OF assms] by (simp add: wire_inv_def)

theorem reachable_wire_contract_witness:
  "\<exists>s. run ''me'' (client_init None)
       [OnUpdatePlayers [(''me'', \<lparr>bp_x = 50, bp_y = 50, bp_color = ''red'', bp_username = ''ann'', bp_score = 0, bp_sequenceNumber = 0\<rparr>)],
       OnKeydown ''KeyW'', OnKeydown ''KeyD'', OnInterval] = Inr s \<and>
     reachable ''me'' None s \<and> keydown_numbers (sent s) = [1, 2] \<and>
     playerInputs s = [input_of 1 KeyW, input_of 2 KeyD]"
proof -
  let ?evs = "[OnUpdatePlayers [(''me'', \<lparr>bp_x = 50, bp_y = 50, bp_color = ''red'', bp_username = ''ann'', bp_score = 0, bp_sequenceNumber = 0\<rparr>)],
       OnKeydown ''KeyW'', OnKeydown ''KeyD'', OnInterval]"
  have "case run ''me'' (client_init None) ?evs of
          Inl e \<Rightarrow> False
        | Inr s \<Rightarrow> sequenceNumber s = 2 \<and> playerInputs s = [input_of 1 KeyW, input_of 2 KeyD]"
    by (simp add: client_eval_simps cong: js_then_weak_cong)
  then obtain s where r: "run ''me'' (client_init None) ?evs = Inr s" and
      n: "sequenceNumber s = 2" and ins: "playerInputs s = [input_of 1 KeyW, input_of 2 KeyD]"
    by (cases "run ''me'' (client_init None) ?evs") auto
  have reach: "reachable ''me'' None s" using reachable_run [OF reachable.init r] .
  have "keydown_numbers (sent s) = [1, 2]"
    using reachable_wire_contract [OF reach] n by (simp add: upt_rec)
  then show ?thesis using r reach ins by blast
qed


text \<open>C19. A movement key held when the local player is removed stays held for
  good.  From any reachable state with the key held, a snapshot without the local
  player removes it; the \<open>keyup\<close> listener then ignores every release, because
  the local player is gone; and the interval, which is not gated on the player,
  goes on logging an input and sending a \<open>keydown\<close> message for the key on
  every tick, with the key still held and still no local player.\<close>

theorem held_key_survives_removal:
  assumes "reachable me r s" "keys s k" "js_wf snap" "map_of snap me = None"
  shows "\<exists>s1. client_step me s (OnUpdatePlayers snap) = Inr s1 \<and>
           map_of (frontEndPlayers s1) me = None \<and> keys s1 k \<and>
           (\<forall>c. client_step me s1 (OnKeyup c) = Inr s1) \<and>
           (\<exists>s2 n ms ins. client_step me s1 OnInterval = Inr s2 \<and>
              map_of (frontEndPlayers s2) me = None \<and> keys s2 k \<and>
              sent s2 = sent s1 @ ms \<and> playerInputs s2 = playerInputs s1 @ ins \<and>
              Keydown k n \<in> set ms \<and> input_of n k \<in> set ins)"
proof -
  have "players_inv s" using reachable_client_inv [OF assms(1)] by (simp add: client_inv_def)
  then obtain s1 where s1: "updatePlayers me snap s = Inr s1" using updatePlayers_ok by blast
  have gone: "map_of (frontEndPlayers s1) me = None"
    using updatePlayers_result [OF assms(3) s1, of me] assms(4) by simp
  have held: "keys s1 k" using updatePlayers_frame [OF s1] assms(2) by (simp add: players_frame_def)
  have up: "client_step me s1 (OnKeyup c) = Inr s1" for c using gone by (simp add: client_step_def on_keyup_def)
  obtain n ms ins where "sent (input_tick s1) = sent s1 @ ms" "playerInputs (input_tick s1) = playerInputs s1 @ ins"
      "Keydown k n \<in> set ms" "input_of n k \<in> set ins"
    using input_tick_held [OF held] by blast
  moreover have "map_of (frontEndPlayers (input_tick s1)) me = None" "keys (input_tick s1) k"
    using gone held by (simp_all add: input_tick_fold)
  ultimately show ?thesis using s1 gone held up by (auto simp: client_step_def)
qed

theorem held_key_survives_removal_witness:
  "reachable ''me'' None ((client_init None)\<lparr>frontEndPlayers := [(''me'', Player_new 50 50 10 ''red'' ''ann'')],
        playerLabels := [\<lparr>lbl_id = ''me'', lbl_username = ''ann'', lbl_score = 0\<rparr>], keys := (\<lambda>_. False)(KeyW := True)\<rparr>) \<and>
   (\<exists>s1. client_step ''me'' ((client_init None)\<lparr>frontEndPlayers := [(''me'', Player_new 50 50 10 ''red'' ''ann'')],
        playerLabels := [\<lparr>lbl_id = ''me'', lbl_username = ''ann'', lbl_score = 0\<rparr>], keys := (\<lambda>_. False)(KeyW := True)\<rparr>)
          (OnUpdatePlayers []) = Inr s1 \<and>
      map_of (frontEndPlayers s1) ''me'' = None \<and> client_step ''me'' s1 (OnKeyup ''KeyW'') = Inr s1 \<and>
      (\<exists>s2 n. client_step ''me'' s1 OnInterval = Inr s2 \<and> keys s2 KeyW \<and> Keydown KeyW n \<in> set (sent s2)))"
proof -
  let ?sj = "(client_init None)\<lparr>frontEndPlayers := [(''me'', Player_new 50 50 10 ''red'' ''ann'')],
        playerLabels := [\<lparr>lbl_id = ''me'', lbl_username = ''ann'', lbl_score = 0\<rparr>]\<rparr>"
  let ?sk = "(client_init None)\<lparr>frontEndPlayers := [(''me'', Player_new 50 50 10 ''red'' ''ann'')],
        playerLabels := [\<lparr>lbl_id = ''me'', lbl_username = ''ann'', lbl_score = 0\<rparr>], keys := (\<lambda>_. False)(KeyW := True)\<rparr>"
  have "client_step ''me'' ?sj (OnKeydown ''KeyW'') = Inr ?sk"
    by (simp add: client_step_def on_keydown_def key_of_code_def client_init_def)
  then have h1: "reachable ''me'' None ?sk" by (rule reachable.step [OF first_join_reachable])
  have h2: "keys ?sk KeyW" by simp
  have h3: "js_wf ([] :: backend_player js_object)" by simp
  have h4: "map_of ([] :: backend_player js_object) ''me'' = None" by simp
  show ?thesis using h1 held_key_survives_removal [OF h1 h2 h3 h4] by fastforce
qed

end
