(* ===== verification/Prediction.thy ===== *)
theory Prediction
  imports Client
begin

text \<open>
  Client-side prediction against a model of the authoritative server.  The
  server is outside \<open>src/\<close>; the specification fixes what the client relies
  on (\<open>spec.md\<close> sections 4.2 and 6): the server moves the player by the
  displacement of each \<open>keydown\<close> message it receives, computed from the key
  exactly as the client computes it, and every \<open>updatePlayers\<close> entry echoes in
  \<open>sequenceNumber\<close> the last input it has applied.  A server that started the
  local player at \<open>origin\<close> and has applied the inputs numbered up to
  \<open>sn\<close> therefore reports \<^term>\<open>server_position origin sn msgs\<close>, where
  \<open>msgs\<close> is what the client sent; the position the player would reach once
  every input sent so far is applied is \<^term>\<open>predicted_position origin msgs\<close>.

  The invariant \<open>pending_inv\<close> says that the pending-input log is always
  exactly the inputs the client announced with a number above some
  acknowledgement \<open>k\<close>: nothing announced later is missing, nothing older is
  kept.  On it the refinement theorem rests: when the server acknowledges a
  pending input, or repeats the acknowledgement the log was last trimmed to, the
  target reconciliation
  computes is the predicted position, and the log becomes exactly the inputs
  the server has not applied.

  The code has no guard against an acknowledgement older than the one the log
  was last trimmed to, which the specification asks to be refused: the last
  theorem shows such a snapshot is accepted, trims nothing, and drops the inputs
  between the two acknowledgements from the prediction.
\<close>

text \<open>The inputs announced by a list of messages, in sending order.\<close>

fun announced :: "message list \<Rightarrow> input list" where
  "announced [] = []"
| "announced (Keydown k n # ms) = input_of n k # announced ms"
| "announced (InitGame w h r u # ms) = announced ms"

text \<open>The authoritative position of a server that placed the player at
  \<open>origin\<close> and has applied every announced input numbered up to \<open>sn\<close>.\<close>

definition server_position :: "point \<Rightarrow> nat \<Rightarrow> message list \<Rightarrow> point" where
  "server_position origin sn msgs = replay (filter (\<lambda>i. seq_no i \<le> sn) (announced msgs)) origin"

text \<open>The position once every announced input is applied.\<close>

definition predicted_position :: "point \<Rightarrow> message list \<Rightarrow> point" where
  "predicted_position origin msgs = replay (announced msgs) origin"

text \<open>The pending log is the announced inputs above some acknowledgement.\<close>

definition pending_inv :: "client \<Rightarrow> bool" where
  "pending_inv s \<longleftrightarrow>
     (\<exists>k \<le> sequenceNumber s. playerInputs s = filter (\<lambda>i. k < seq_no i) (announced (sent s)))"

subsection \<open>The announced inputs\<close>

lemma announced_append [simp]: "announced (xs @ ys) = announced xs @ announced ys"
  by (induction xs rule: announced.induct) simp_all

lemma seq_no_announced: "map seq_no (announced ms) = keydown_numbers ms"
  by (induction ms rule: announced.induct) simp_all

lemma announced_numbers:
  assumes "wire_inv s"
  shows "map seq_no (announced (sent s)) = [1..<Suc (sequenceNumber s)]"
  using assms by (simp add: wire_inv_def seq_no_announced)

lemma announced_ordered: "wire_inv s \<Longrightarrow> inputs_ordered (announced (sent s))"
  by (simp only: announced_numbers sorted_wrt_upt)

lemma announced_bounded: "wire_inv s \<Longrightarrow> i \<in> set (announced (sent s)) \<Longrightarrow> seq_no i \<le> sequenceNumber s"
  using announced_numbers [of s] by (metis atLeastLessThan_iff image_eqI less_Suc_eq_le list.set_map set_upt)

text \<open>The numbers in a log of the invariant's shape: those above \<open>k\<close>, up to the counter.\<close>

lemma pending_seq_nos:
  assumes "wire_inv s" "playerInputs s = filter (\<lambda>i. k < seq_no i) (announced (sent s))"
  shows "seq_no ` set (playerInputs s) = {m. k < m \<and> m \<le> sequenceNumber s}"
proof -
  have "seq_no ` set (playerInputs s) = set (filter (\<lambda>m. k < m) (map seq_no (announced (sent s))))"
    using assms(2) by (simp add: filter_map comp_def)
  also have "\<dots> = {m. k < m \<and> m \<le> sequenceNumber s}"
    using assms(1) by (auto simp: announced_numbers)
  finally show ?thesis .
qed

subsection \<open>Dropping a prefix keeps the shape\<close>

lemma filter_tl_ordered:
  "inputs_ordered A \<Longrightarrow> filter (\<lambda>i. k < seq_no i) A = x # rest \<Longrightarrow>
   filter (\<lambda>i. seq_no x < seq_no i) A = rest"
proof (induction A)
  case Nil
  then show ?case by simp
next
  case (Cons a A)
  show ?case
  proof (cases "k < seq_no a")
    case True
    then have "x = a" "rest = filter (\<lambda>i. k < seq_no i) A" using Cons.prems(2) by simp_all
    moreover have "\<forall>i\<in>set A. seq_no a < seq_no i" using Cons.prems(1) by simp
    moreover have "filter (\<lambda>i. k < seq_no i) A = A"
      using calculation(3) True by (metis (no_types, lifting) filter_True less_trans)
    ultimately show ?thesis by (auto intro: filter_True)
  next
    case False
    then have "filter (\<lambda>i. k < seq_no i) A = x # rest" using Cons.prems(2) by simp
    moreover have "x \<in> set A" using calculation by (metis filter_is_subset list.set_intros(1) subsetD)
    ultimately show ?thesis using Cons False by force
  qed
qed

lemma pending_drop:
  assumes "inputs_ordered A" "\<forall>i\<in>set A. seq_no i \<le> n"
  shows "k \<le> n \<Longrightarrow> ins = filter (\<lambda>i. k < seq_no i) A \<Longrightarrow>
         \<exists>k'\<le>n. drop j ins = filter (\<lambda>i. k' < seq_no i) A"
proof (induction j arbitrary: k ins)
  case 0
  then show ?case by auto
next
  case (Suc j)
  show ?case
  proof (cases ins)
    case Nil
    then show ?thesis using Suc.prems by auto
  next
    case (Cons x rest)
    have x: "x \<in> set A" using Suc.prems(2) Cons by (metis filter_is_subset list.set_intros(1) subsetD)
    have "filter (\<lambda>i. k < seq_no i) A = x # rest" using Suc.prems(2) Cons by simp
    then have "filter (\<lambda>i. seq_no x < seq_no i) A = rest" by (rule filter_tl_ordered [OF assms(1)])
    then show ?thesis using Suc.IH [of "seq_no x" rest] x assms(2) Cons by force
  qed
qed

subsection \<open>The invariant of the pending log\<close>

lemma pending_inv_init: "pending_inv (client_init r)"
  by (auto simp: pending_inv_def client_init_def)

lemma pending_inv_frame:
  assumes "wire_inv s" "pending_inv s" "sent s' = sent s" "sequenceNumber s' = sequenceNumber s"
    and "playerInputs s' = drop j (playerInputs s)"
  shows "pending_inv s'"
proof -
  obtain k where k: "k \<le> sequenceNumber s" "playerInputs s = filter (\<lambda>i. k < seq_no i) (announced (sent s))"
    using assms(2) by (auto simp: pending_inv_def)
  have "\<exists>k'\<le>sequenceNumber s. drop j (playerInputs s) = filter (\<lambda>i. k' < seq_no i) (announced (sent s))"
    using pending_drop [OF announced_ordered [OF assms(1)] _ k] announced_bounded [OF assms(1)] by blast
  then show ?thesis using assms(3-5) by (simp add: pending_inv_def)
qed

text \<open>Sampling a key keeps the pending log as the inputs above a fixed floor.\<close>

lemma sample_key_floor:
  assumes "k0 \<le> sequenceNumber s" "playerInputs s = filter (\<lambda>i. k0 < seq_no i) (announced (sent s))"
  shows "k0 \<le> sequenceNumber (sample_key k s) \<and>
         playerInputs (sample_key k s) = filter (\<lambda>i. k0 < seq_no i) (announced (sent (sample_key k s)))"
  using assms by (simp add: sample_key_def)

lemma sample_keys_floor:
  "k0 \<le> sequenceNumber s \<Longrightarrow> playerInputs s = filter (\<lambda>i. k0 < seq_no i) (announced (sent s)) \<Longrightarrow>
   k0 \<le> sequenceNumber (fold sample_key ks s) \<and>
   playerInputs (fold sample_key ks s) = filter (\<lambda>i. k0 < seq_no i) (announced (sent (fold sample_key ks s)))"
  by (induction ks arbitrary: s) (simp_all add: sample_key_floor)

lemma sample_key_pending:
  assumes "pending_inv s"
  shows "pending_inv (sample_key k s)"
  using assms sample_key_floor [of _ s k] unfolding pending_inv_def by blast

lemma sample_keys_pending: "pending_inv s \<Longrightarrow> pending_inv (fold sample_key ks s)"
  by (induction ks arbitrary: s) (simp_all add: sample_key_pending)

lemma client_step_pending:
  assumes "wire_inv s" "pending_inv s" "client_step me s e = Inr s'"
  shows "pending_inv s'"
  using client_step_shape [OF assms(3)]
proof (elim disjE exE conjE)
  fix j
  assume "sent s' = sent s" "sequenceNumber s' = sequenceNumber s" "playerInputs s' = drop j (playerInputs s)"
  then show ?thesis using pending_inv_frame [OF assms(1,2)] by blast
next
  fix u
  assume "s' = on_submit u s"
  then show ?thesis using assms(2) by (simp add: pending_inv_def on_submit_def Let_def)
next
  assume "s' = input_tick s"
  then show ?thesis using sample_keys_pending [OF assms(2), of "[KeyW, KeyA, KeyS, KeyD]"]
    by (simp add: input_tick_def)
qed

lemma reachable_pending_inv: "reachable me r s \<Longrightarrow> pending_inv s"
proof (induction rule: reachable.induct)
  case init
  show ?case by (rule pending_inv_init)
next
  case (step s e s')
  show ?case by (rule client_step_pending [OF reachable_wire_inv [OF step.hyps(1)] step.IH step.hyps(2)])
qed

subsection \<open>Reconciliation on a log of that shape\<close>

lemma trim_pending:
  assumes "wire_inv s" "playerInputs s = filter (\<lambda>i. k < seq_no i) (announced (sent s))"
    and "sn \<in> seq_no ` set (playerInputs s) \<or> playerInputs s = filter (\<lambda>i. sn < seq_no i) (announced (sent s))"
  shows "trim_inputs sn (playerInputs s) = filter (\<lambda>i. sn < seq_no i) (announced (sent s))"
proof (cases "sn \<in> seq_no ` set (playerInputs s)")
  case True
  have ksn: "k < sn" using True pending_seq_nos [OF assms(1,2)] by simp
  have "inputs_ordered (playerInputs s)"
    using announced_ordered [OF assms(1)] assms(2) by (simp add: sorted_wrt_map sorted_wrt_filter)
  then have "trim_inputs sn (playerInputs s) = filter (\<lambda>i. sn < seq_no i) (playerInputs s)"
    using True by (rule trim_inputs_filter)
  also have "\<dots> = filter (\<lambda>i. sn < seq_no i) (announced (sent s))"
    using assms(2) ksn by (auto simp: filter_filter intro: filter_cong)
  finally show ?thesis .
next
  case False
  then show ?thesis using assms(3) by (simp add: trim_inputs_absent)
qed

lemma replay_split:
  "replay (filter (\<lambda>i. sn < seq_no i) A) (replay (filter (\<lambda>i. seq_no i \<le> sn) A) origin) = replay A origin"
proof -
  have "filter (\<lambda>i. sn < seq_no i) A = filter (\<lambda>i. \<not> seq_no i \<le> sn) A" by (simp add: not_le)
  then show ?thesis
    using sum_list_filter_split [of dx "\<lambda>i. seq_no i \<le> sn" A] sum_list_filter_split [of dy "\<lambda>i. seq_no i \<le> sn" A]
    by (cases origin) (simp add: replay_sum algebra_simps)
qed

text \<open>Replaying two disjoint selections of the announced inputs one after the
  other is replaying their union.\<close>

lemma replay_filter_disj:
  assumes "\<And>i. P i \<Longrightarrow> \<not> Q i"
  shows "replay (filter Q A) (replay (filter P A) t) = replay (filter (\<lambda>i. P i \<or> Q i) A) t"
  using sum_list_filter_disj [of P Q dx A, OF assms] sum_list_filter_disj [of P Q dy A, OF assms]
  by (cases t) (simp add: replay_sum algebra_simps)

subsection \<open>Prediction refines the server\<close>

text \<open>On a log of the invariant's shape, an acknowledgement consistent with the
  server model makes the trim and replay of the reconciliation exact: the log
  becomes the inputs above the acknowledged number, and replaying them from the
  reported position gives the position after every announced input.\<close>

lemma reconcile_pending_exact:
  assumes "wire_inv s" "playerInputs s = filter (\<lambda>i. k < seq_no i) (announced (sent s))"
    and "sn \<in> seq_no ` set (playerInputs s) \<or> playerInputs s = filter (\<lambda>i. sn < seq_no i) (announced (sent s))"
    and "pos = server_position origin sn (sent s)"
  shows "trim_inputs sn (playerInputs s) = filter (\<lambda>i. sn < seq_no i) (announced (sent s)) \<and>
         replay (trim_inputs sn (playerInputs s)) pos = predicted_position origin (sent s)"
  using trim_pending [OF assms(1-3)] assms(4)
  by (simp add: server_position_def predicted_position_def replay_split)

text \<open>C26. Client-side prediction is exact against a consistent server.  Let
  the client be in any reachable state with the local player in the store, and
  let the server's \<open>updatePlayers\<close> entry for it report the position of a
  server that applied every input announced up to the echoed number \<open>sn\<close>,
  where \<open>sn\<close> is a pending input's number, or the log already holds exactly
  the inputs announced above \<open>sn\<close> (the acknowledgement is repeated, or the
  server has caught up and the log is empty).  Then the handler sets the player's target to the position
  obtained by applying every input the client has announced, and the pending log
  becomes exactly the announced inputs above \<open>sn\<close>, those the server has
  still to apply.\<close>

theorem prediction_refines_server:
  assumes "reachable me r s" "js_wf snap" "map_of snap me = Some bp"
    and "map_of (frontEndPlayers s) me = Some p"
    and "bp_sequenceNumber bp \<in> seq_no ` set (playerInputs s) \<or>
         playerInputs s = filter (\<lambda>i. bp_sequenceNumber bp < seq_no i) (announced (sent s))"
    and "(bp_x bp, bp_y bp) = server_position origin (bp_sequenceNumber bp) (sent s)"
  shows "\<exists>s'. client_step me s (OnUpdatePlayers snap) = Inr s' \<and>
           playerInputs s' = filter (\<lambda>i. bp_sequenceNumber bp < seq_no i) (announced (sent s)) \<and>
           map_option player_target (map_of (frontEndPlayers s') me) =
             Some (Some (predicted_position origin (sent s)))"
proof -
  have wire: "wire_inv s" using assms(1) by (rule reachable_wire_inv)
  have pinv: "players_inv s" using reachable_client_inv [OF assms(1)] by (simp add: client_inv_def)
  obtain k where k: "playerInputs s = filter (\<lambda>i. k < seq_no i) (announced (sent s))"
    using reachable_pending_inv [OF assms(1)] by (auto simp: pending_inv_def)
  obtain s' where s': "updatePlayers me snap s = Inr s'"
      "playerInputs s' = trim_inputs (bp_sequenceNumber bp) (playerInputs s)"
      "map_option player_target (map_of (frontEndPlayers s') me) =
         Some (Some (replay (trim_inputs (bp_sequenceNumber bp) (playerInputs s)) (bp_x bp, bp_y bp)))"
    using updatePlayers_local_target [OF pinv assms(2-4)] by blast
  moreover note reconcile_pending_exact [OF wire k assms(5,6)]
  ultimately show ?thesis by (auto simp: client_step_def)
qed

theorem prediction_refines_server_witness:
  "\<exists>s. run ''me'' (client_init None)
       [OnUpdatePlayers [(''me'', \<lparr>bp_x = 50, bp_y = 50, bp_color = ''red'', bp_username = ''ann'', bp_score = 0, bp_sequenceNumber = 0\<rparr>)],
        OnKeydown ''KeyW'', OnInterval, OnInterval] = Inr s \<and>
     reachable ''me'' None s \<and>
     (\<exists>s'. client_step ''me'' s (OnUpdatePlayers [(''me'', \<lparr>bp_x = 50, bp_y = 45, bp_color = ''red'', bp_username = ''ann'', bp_score = 0, bp_sequenceNumber = 1\<rparr>)]) = Inr s' \<and>
           playerInputs s' = [input_of 2 KeyW] \<and>
           map_option player_target (map_of (frontEndPlayers s') ''me'') = Some (Some (50, 40)))"
proof -
  let ?evs = "[OnUpdatePlayers [(''me'', \<lparr>bp_x = 50, bp_y = 50, bp_color = ''red'', bp_username = ''ann'', bp_score = 0, bp_sequenceNumber = 0\<rparr>)],
        OnKeydown ''KeyW'', OnInterval, OnInterval]"
  let ?bp = "\<lparr>bp_x = 50, bp_y = 45, bp_color = ''red'', bp_username = ''ann'', bp_score = 0, bp_sequenceNumber = 1\<rparr>"
  have "case run ''me'' (client_init None) ?evs of
          Inl e \<Rightarrow> False
        | Inr s \<Rightarrow> frontEndPlayers s = [(''me'', Player_new 50 50 10 ''red'' ''ann'')] \<and>
                   playerInputs s = [input_of 1 KeyW, input_of 2 KeyW] \<and>
                   sent s = [Keydown KeyW 1, Keydown KeyW 2] \<and> sequenceNumber s = 2"
    by (simp add: client_eval_simps cong: js_then_weak_cong)
  then obtain s where r: "run ''me'' (client_init None) ?evs = Inr s"
      and st: "frontEndPlayers s = [(''me'', Player_new 50 50 10 ''red'' ''ann'')]"
        "playerInputs s = [input_of 1 KeyW, input_of 2 KeyW]"
        "sent s = [Keydown KeyW 1, Keydown KeyW 2]" "sequenceNumber s = 2"
    by (cases "run ''me'' (client_init None) ?evs") auto
  have reach: "reachable ''me'' None s" using reachable_run [OF reachable.init r] .
  have h2: "js_wf [(''me'', ?bp)]" by simp
  have h3: "map_of [(''me'', ?bp)] ''me'' = Some ?bp" by simp
  have h4: "map_of (frontEndPlayers s) ''me'' = Some (Player_new 50 50 10 ''red'' ''ann'')" using st by simp
  have h5: "bp_sequenceNumber ?bp \<in> seq_no ` set (playerInputs s) \<or>
            playerInputs s = filter (\<lambda>i. bp_sequenceNumber ?bp < seq_no i) (announced (sent s))"
    using st by simp
  have h6: "(bp_x ?bp, bp_y ?bp) = server_position (50, 50) (bp_sequenceNumber ?bp) (sent s)"
    using st by (simp add: server_position_def replay_def input_of_def SPEED_def)
  obtain s' where s': "client_step ''me'' s (OnUpdatePlayers [(''me'', ?bp)]) = Inr s'"
      "playerInputs s' = filter (\<lambda>i. 1 < seq_no i) (announced (sent s))"
      "map_option player_target (map_of (frontEndPlayers s') ''me'') = Some (Some (predicted_position (50, 50) (sent s)))"
    using prediction_refines_server [OF reach h2 h3 h4 h5 h6] by auto
  have "playerInputs s' = [input_of 2 KeyW]" using s'(2) st by simp
  moreover have "predicted_position (50, 50) (sent s) = (50, 40)"
    using st by (simp add: predicted_position_def replay_def input_of_def SPEED_def)
  ultimately show ?thesis using r reach s' by auto
qed


subsection \<open>A stale acknowledgement\<close>

text \<open>C27. A stale acknowledgement is accepted silently.  The specification
  asks that an out-of-order acknowledgement be refused with an explicit error;
  the code has no such guard.  Let the log have been trimmed at \<open>k\<close> (it is
  the announced inputs above \<open>k\<close>), and let a snapshot arrive from a
  consistent server that had applied only the inputs up to some \<open>sn < k\<close>.  The
  handler returns normally, nothing is trimmed, and the target is the origin
  with the inputs up to \<open>sn\<close> and those above \<open>k\<close> applied: the inputs
  numbered \<open>sn + 1 .. k\<close> are lost from the prediction.\<close>

theorem stale_acknowledgement_loses_inputs:
  assumes "reachable me r s" "playerInputs s = filter (\<lambda>i. k < seq_no i) (announced (sent s))" "sn < k"
    and "js_wf snap" "map_of snap me = Some bp" "map_of (frontEndPlayers s) me = Some p"
    and "bp_sequenceNumber bp = sn" "(bp_x bp, bp_y bp) = server_position origin sn (sent s)"
  shows "\<exists>s'. client_step me s (OnUpdatePlayers snap) = Inr s' \<and> playerInputs s' = playerInputs s \<and>
           map_option player_target (map_of (frontEndPlayers s') me) =
             Some (Some (replay (filter (\<lambda>i. seq_no i \<le> sn \<or> k < seq_no i) (announced (sent s))) origin))"
proof -
  have pinv: "players_inv s" using reachable_client_inv [OF assms(1)] by (simp add: client_inv_def)
  have "sn \<notin> seq_no ` set (playerInputs s)" using assms(2,3) by auto
  then have trim: "trim_inputs sn (playerInputs s) = playerInputs s" by (rule trim_inputs_absent)
  obtain s' where s': "updatePlayers me snap s = Inr s'"
      "playerInputs s' = trim_inputs sn (playerInputs s)"
      "map_option player_target (map_of (frontEndPlayers s') me) =
         Some (Some (replay (trim_inputs sn (playerInputs s)) (bp_x bp, bp_y bp)))"
    using updatePlayers_local_target [OF pinv assms(4-6)] assms(7) by blast
  have "replay (playerInputs s) (bp_x bp, bp_y bp) =
        replay (filter (\<lambda>i. seq_no i \<le> sn \<or> k < seq_no i) (announced (sent s))) origin"
    using replay_filter_disj [of "\<lambda>i. seq_no i \<le> sn" "\<lambda>i. k < seq_no i"] assms(2,3,8)
    by (simp add: server_position_def)
  then show ?thesis using s' trim by (simp add: client_step_def)
qed

theorem stale_acknowledgement_loses_inputs_witness:
  "\<exists>s. run ''me'' (client_init None)
       [OnUpdatePlayers [(''me'', \<lparr>bp_x = 50, bp_y = 50, bp_color = ''red'', bp_username = ''ann'', bp_score = 0, bp_sequenceNumber = 0\<rparr>)],
        OnKeydown ''KeyW'', OnInterval, OnInterval, OnInterval,
        OnUpdatePlayers [(''me'', \<lparr>bp_x = 50, bp_y = 40, bp_color = ''red'', bp_username = ''ann'', bp_score = 0, bp_sequenceNumber = 2\<rparr>)]] = Inr s \<and>
     reachable ''me'' None s \<and>
     (\<exists>s'. client_step ''me'' s (OnUpdatePlayers [(''me'', \<lparr>bp_x = 50, bp_y = 45, bp_color = ''red'', bp_username = ''ann'', bp_score = 0, bp_sequenceNumber = 1\<rparr>)]) = Inr s' \<and>
           playerInputs s' = [input_of 3 KeyW] \<and>
           map_option player_target (map_of (frontEndPlayers s') ''me'') = Some (Some (50, 40)) \<and>
           predicted_position (50, 50) (sent s) = (50, 35))"
proof -
  let ?evs = "[OnUpdatePlayers [(''me'', \<lparr>bp_x = 50, bp_y = 50, bp_color = ''red'', bp_username = ''ann'', bp_score = 0, bp_sequenceNumber = 0\<rparr>)],
        OnKeydown ''KeyW'', OnInterval, OnInterval, OnInterval,
        OnUpdatePlayers [(''me'', \<lparr>bp_x = 50, bp_y = 40, bp_color = ''red'', bp_username = ''ann'', bp_score = 0, bp_sequenceNumber = 2\<rparr>)]]"
  let ?bp = "\<lparr>bp_x = 50, bp_y = 45, bp_color = ''red'', bp_username = ''ann'', bp_score = 0, bp_sequenceNumber = 1\<rparr>"
  have "case run ''me'' (client_init None) ?evs of
          Inl e \<Rightarrow> False
        | Inr s \<Rightarrow> map_of (frontEndPlayers s) ''me'' \<noteq> None \<and>
                   playerInputs s = [input_of 3 KeyW] \<and>
                   sent s = [Keydown KeyW 1, Keydown KeyW 2, Keydown KeyW 3]"
    by (simp add: client_eval_simps cong: js_then_weak_cong)
  then obtain s where r: "run ''me'' (client_init None) ?evs = Inr s"
      and st: "map_of (frontEndPlayers s) ''me'' \<noteq> None" "playerInputs s = [input_of 3 KeyW]"
        "sent s = [Keydown KeyW 1, Keydown KeyW 2, Keydown KeyW 3]"
    by (cases "run ''me'' (client_init None) ?evs") auto
  obtain p where h6: "map_of (frontEndPlayers s) ''me'' = Some p" using st(1) by blast
  have reach: "reachable ''me'' None s" using reachable_run [OF reachable.init r] .
  have h2: "playerInputs s = filter (\<lambda>i. 2 < seq_no i) (announced (sent s))" using st by simp
  have h3: "(1::nat) < 2" by simp
  have h4: "js_wf [(''me'', ?bp)]" by simp
  have h5: "map_of [(''me'', ?bp)] ''me'' = Some ?bp" by simp
  have h7: "bp_sequenceNumber ?bp = 1" by simp
  have h8: "(bp_x ?bp, bp_y ?bp) = server_position (50, 50) 1 (sent s)"
    using st by (simp add: server_position_def replay_def input_of_def SPEED_def)
  obtain s' where s': "client_step ''me'' s (OnUpdatePlayers [(''me'', ?bp)]) = Inr s'"
      "playerInputs s' = playerInputs s"
      "map_option player_target (map_of (frontEndPlayers s') ''me'') =
         Some (Some (replay (filter (\<lambda>i. seq_no i \<le> 1 \<or> 2 < seq_no i) (announced (sent s))) (50, 50)))"
    using stale_acknowledgement_loses_inputs [OF reach h2 h3 h4 h5 h6 h7 h8] by blast
  have "replay (filter (\<lambda>i. seq_no i \<le> 1 \<or> 2 < seq_no i) (announced (sent s))) (50, 50) = (50, 40)"
    using st by (simp add: replay_def input_of_def SPEED_def)
  moreover have "predicted_position (50, 50) (sent s) = (50, 35)"
    using st by (simp add: predicted_position_def replay_def input_of_def SPEED_def)
  ultimately show ?thesis using r reach s' st(2) by auto
qed

end
