(* ===== verification/System.thy ===== *)
theory System
  imports Prediction
begin

text \<open>
  The client composed with the server over the socket.  The transport is what
  \<open>spec.md\<close> (Non-goals and section 6) assumes of socket.io: per channel,
  messages are delivered reliably, in order and at least once.  The client's
  messages are the list \<open>sent\<close> it appends to; the server reads it in order,
  \<open>srv_read\<close> messages so far (\<open>server_recv\<close>).  The server model
  follows the protocol of sections 4.2 and 6: on a \<open>keydown\<close> it moves the
  local player by the key's displacement and records the message's sequence
  number as the last input applied; at any time it may queue an
  \<open>updatePlayers\<close> snapshot (\<open>server_snapshot\<close>) carrying that
  position and number for the local player, and any entries for other players,
  on the FIFO queue \<open>to_client\<close>.  The client handles the head of the queue,
  which the transport then drops (\<open>deliver\<close>) or delivers again
  (\<open>redeliver\<close>, a duplicate).  The client's other events (frames, ticks,
  keys, the form, projectile messages) interleave freely.

  The invariants are \<open>server_inv\<close> (the server's state is the replay of the
  inputs among the messages it has read) and \<open>channel_inv\<close> (the queued
  snapshots were taken at non-decreasing read positions, none before the one
  the client's log was last trimmed to).  The theorems show that every client
  state of the composed system is a reachable client state; that every
  snapshot the client handles meets the hypotheses of the refinement theorem of
  \<open>Prediction\<close>, so the stale acknowledgement that theory shows the code
  accepting silently cannot occur under this transport and the local target is always the position after every input
  sent; that the acknowledgements the client receives never go backwards and
  never mis-trim the log; and that once the inputs stop and the server has read
  them, the next snapshot empties the log and puts the target on the server's
  position.  The client's messages can be duplicated too: \<open>server_recv_dup\<close>
  handles the last one again, and the last theorem shows what the client then
  shows.
\<close>

record system =
  sys_client :: client
  srv_pos :: point
  srv_ack :: nat
  srv_read :: nat
  to_client :: "backend_player js_object list"

definition system_init :: "real option \<Rightarrow> point \<Rightarrow> system" where
  "system_init r origin =
     \<lparr>sys_client = client_init r, srv_pos = origin, srv_ack = 0, srv_read = 0, to_client = []\<rparr>"

text \<open>The server's handler of one client message: a \<open>keydown\<close> moves the
  player by the key's displacement and records its number as the last applied.\<close>

definition server_apply :: "message \<Rightarrow> system \<Rightarrow> system" where
  "server_apply m S =
     (case m of
        Keydown k n \<Rightarrow>
          S\<lparr>srv_pos := (fst (srv_pos S) + fst (key_delta k), snd (srv_pos S) + snd (key_delta k)),
            srv_ack := n\<rparr>
      | InitGame w h d u \<Rightarrow> S)"

text \<open>The server handles the next message the client sent.\<close>

definition server_recv :: "system \<Rightarrow> system" where
  "server_recv S = (server_apply (sent (sys_client S) ! srv_read S) S)\<lparr>srv_read := Suc (srv_read S)\<rparr>"

text \<open>An at-least-once transport may deliver the last message the server read
  once more; the server handles it again.\<close>

definition server_recv_dup :: "system \<Rightarrow> system" where
  "server_recv_dup S = server_apply (sent (sys_client S) ! (srv_read S - 1)) S"

text \<open>An \<open>updatePlayers\<close> snapshot from the server: the local player's entry
  carries the server's position and last applied number; the other entries are
  any players other than the local one.\<close>

definition server_snapshot ::
  "ident \<Rightarrow> system \<Rightarrow> backend_player \<Rightarrow> backend_player js_object \<Rightarrow> backend_player js_object" where
  "server_snapshot me S bp others =
     (me, bp\<lparr>bp_x := fst (srv_pos S), bp_y := snd (srv_pos S), bp_sequenceNumber := srv_ack S\<rparr>) # others"

text \<open>The client's events that do not come over the \<open>updatePlayers\<close> channel.\<close>

fun local_event :: "event \<Rightarrow> bool" where
  "local_event (OnUpdatePlayers snap) = False"
| "local_event e = True"

inductive sys_reachable :: "ident \<Rightarrow> real option \<Rightarrow> point \<Rightarrow> system \<Rightarrow> bool" for me r origin where
  init: "sys_reachable me r origin (system_init r origin)"
| local: "sys_reachable me r origin S \<Longrightarrow> local_event e \<Longrightarrow> client_step me (sys_client S) e = Inr c \<Longrightarrow>
          sys_reachable me r origin (S\<lparr>sys_client := c\<rparr>)"
| recv: "sys_reachable me r origin S \<Longrightarrow> srv_read S < length (sent (sys_client S)) \<Longrightarrow>
         sys_reachable me r origin (server_recv S)"
| send: "sys_reachable me r origin S \<Longrightarrow> me \<notin> set (js_keys others) \<Longrightarrow> js_wf others \<Longrightarrow>
         sys_reachable me r origin (S\<lparr>to_client := to_client S @ [server_snapshot me S bp others]\<rparr>)"
| deliver: "sys_reachable me r origin S \<Longrightarrow> to_client S = snap # rest \<Longrightarrow>
            client_step me (sys_client S) (OnUpdatePlayers snap) = Inr c \<Longrightarrow>
            sys_reachable me r origin (S\<lparr>sys_client := c, to_client := rest\<rparr>)"
| redeliver: "sys_reachable me r origin S \<Longrightarrow> to_client S = snap # rest \<Longrightarrow>
              client_step me (sys_client S) (OnUpdatePlayers snap) = Inr c \<Longrightarrow>
              sys_reachable me r origin (S\<lparr>sys_client := c\<rparr>)"

text \<open>The inputs among the first \<open>j\<close> messages: those a server that has read
  them has applied.\<close>

abbreviation applied :: "nat \<Rightarrow> message list \<Rightarrow> input list" where
  "applied j msgs \<equiv> announced (take j msgs)"

subsection \<open>Invariants of the composed system\<close>

text \<open>The server's position and acknowledgement are those of the inputs among
  the messages it has read.\<close>

definition server_inv :: "point \<Rightarrow> system \<Rightarrow> bool" where
  "server_inv origin S \<longleftrightarrow>
     srv_read S \<le> length (sent (sys_client S)) \<and>
     srv_pos S = replay (applied (srv_read S) (sent (sys_client S))) origin \<and>
     srv_ack S = length (applied (srv_read S) (sent (sys_client S)))"

text \<open>A snapshot the server sent after reading the first \<open>j\<close> of the
  messages \<open>msgs\<close>: a well-formed object whose first entry is the local
  player's, at the position and number of the inputs among them.\<close>

definition snap_from ::
  "ident \<Rightarrow> point \<Rightarrow> message list \<Rightarrow> nat \<Rightarrow> backend_player js_object \<Rightarrow> bool" where
  "snap_from me origin msgs j snap \<longleftrightarrow>
     j \<le> length msgs \<and> js_wf snap \<and>
     (case snap of
        [] \<Rightarrow> False
      | (pid, bp) # others \<Rightarrow> pid = me \<and> (bp_x bp, bp_y bp) = replay (applied j msgs) origin \<and>
                              bp_sequenceNumber bp = length (applied j msgs))"

text \<open>The channel holds snapshots taken at read positions \<open>js\<close>, in order and
  not after the server's current position; the client's pending log is the
  inputs above the acknowledgement of the read position \<open>j0\<close> of the last
  snapshot it reconciled with.\<close>

definition channel_inv :: "ident \<Rightarrow> point \<Rightarrow> system \<Rightarrow> bool" where
  "channel_inv me origin S \<longleftrightarrow>
     (\<exists>j0 js. list_all2 (snap_from me origin (sent (sys_client S))) js (to_client S) \<and>
        sorted (j0 # js @ [srv_read S]) \<and>
        playerInputs (sys_client S) =
          filter (\<lambda>i. length (applied j0 (sent (sys_client S))) < seq_no i) (announced (sent (sys_client S))))"

subsection \<open>The client part\<close>

lemma sys_reachable_client: "sys_reachable me r origin S \<Longrightarrow> reachable me r (sys_client S)"
proof (induction rule: sys_reachable.induct)
  case init
  show ?case by (simp add: system_init_def reachable.init)
next
  case (local S e c)
  then show ?case using reachable.step by simp
next
  case (recv S)
  then show ?case by (simp add: server_recv_def server_apply_def split: message.split)
next
  case (send S others bp)
  then show ?case by simp
next
  case (deliver S snap rest c)
  then show ?case using reachable.step by simp
next
  case (redeliver S snap rest c)
  then show ?case using reachable.step by simp
qed

lemma input_tick_sent: "\<exists>ms. sent (input_tick s) = sent s @ ms"
  by (simp only: input_tick_fold sample_keys_effect Let_def) simp

lemma client_step_sent_append:
  assumes "client_step me s e = Inr s'"
  shows "\<exists>ms. sent s' = sent s @ ms"
  using client_step_shape [OF assms] input_tick_sent [of s]
  by (auto simp: on_submit_def Let_def)

subsection \<open>What the first messages announce\<close>

lemma applied_numbers:
  assumes "wire_inv c"
  shows "map seq_no (applied j (sent c)) = [1..<Suc (length (applied j (sent c)))] \<and>
         map seq_no (announced (drop j (sent c))) =
           [Suc (length (applied j (sent c)))..<Suc (sequenceNumber c)]"
proof -
  let ?T = "applied j (sent c)" and ?D = "announced (drop j (sent c))"
  have all: "map seq_no ?T @ map seq_no ?D = [1..<Suc (sequenceNumber c)]"
    using announced_numbers [OF assms] by (metis announced_append append_take_drop_id map_append)
  then have len: "length ?T \<le> sequenceNumber c"
    by (metis le_add1 length_append length_map length_upt diff_Suc_1)
  have "map seq_no ?T = take (length ?T) [1..<Suc (sequenceNumber c)]"
    using all by (metis append_eq_conv_conj length_map)
  moreover have "map seq_no ?D = drop (length ?T) [1..<Suc (sequenceNumber c)]"
    using all by (metis append_eq_conv_conj length_map)
  ultimately show ?thesis using len by (simp add: take_upt drop_upt del: upt_Suc)
qed

lemma filter_applied:
  assumes "wire_inv c"
  shows "filter (\<lambda>i. seq_no i \<le> length (applied j (sent c))) (announced (sent c)) = applied j (sent c)"
proof -
  let ?T = "applied j (sent c)" and ?D = "announced (drop j (sent c))"
  have "\<forall>i\<in>set ?T. seq_no i \<le> length ?T"
    using conjunct1 [OF applied_numbers [OF assms, of j]] by (metis atLeastLessThan_iff image_eqI less_Suc_eq_le list.set_map set_upt)
  moreover have "\<forall>i\<in>set ?D. length ?T < seq_no i"
    using conjunct2 [OF applied_numbers [OF assms, of j]]
    by (metis Suc_le_eq atLeastLessThan_iff image_eqI list.set_map set_upt)
  moreover have "announced (sent c) = ?T @ ?D"
    by (metis announced_append append_take_drop_id)
  ultimately show ?thesis by (simp add: filter_empty_conv not_le)
qed

lemma length_applied_mono: "j0 \<le> j1 \<Longrightarrow> length (applied j0 msgs) \<le> length (applied j1 msgs)"
  by (metis announced_append le_add1 le_add_diff_inverse length_append take_add)

lemma length_applied_le:
  "wire_inv c \<Longrightarrow> length (applied j (sent c)) \<le> sequenceNumber c"
  using applied_numbers [of c j] by (metis length_map length_upt diff_Suc_1 le_add1 length_append
      announced_append append_take_drop_id announced_numbers)

lemma applied_append: "j \<le> length msgs \<Longrightarrow> applied j (msgs @ ms) = applied j msgs"
  by simp

text \<open>A local event keeps the pending log as the inputs above a fixed floor.\<close>

lemma local_step_floor:
  assumes "local_event e" "client_step me s e = Inr s'"
    and "k0 \<le> sequenceNumber s" "playerInputs s = filter (\<lambda>i. k0 < seq_no i) (announced (sent s))"
  shows "k0 \<le> sequenceNumber s' \<and> playerInputs s' = filter (\<lambda>i. k0 < seq_no i) (announced (sent s'))"
proof (cases e)
  case OnInterval
  then show ?thesis using assms(2) sample_keys_floor [OF assms(3,4), of "[KeyW, KeyA, KeyS, KeyD]"]
    by (simp add: client_step_def input_tick_fold)
qed (use assms in \<open>auto simp: client_step_def updateProjectiles_def Let_def on_keydown_def
      on_keyup_def on_submit_def split: option.splits\<close>)

subsection \<open>The server part\<close>

lemma server_recv_fields [simp]:
  "sys_client (server_recv S) = sys_client S" "to_client (server_recv S) = to_client S"
  "srv_read (server_recv S) = Suc (srv_read S)"
  by (simp_all add: server_recv_def server_apply_def split: message.split)

lemma server_inv_init: "server_inv origin (system_init r origin)"
  by (simp add: server_inv_def system_init_def client_init_def replay_def)

lemma server_inv_client:
  "server_inv origin S \<Longrightarrow> client_step me (sys_client S) e = Inr c \<Longrightarrow> server_inv origin (S\<lparr>sys_client := c\<rparr>)"
  by (auto simp: server_inv_def dest!: client_step_sent_append)

text \<open>The \<open>keydown\<close> the server reads next carries the number of the inputs
  it has applied plus one.\<close>

lemma next_keydown_number:
  assumes "wire_inv c" "j < length (sent c)" "sent c ! j = Keydown k n"
  shows "n = Suc (length (applied j (sent c)))"
proof -
  have "applied (Suc j) (sent c) = applied j (sent c) @ [input_of n k]"
    using assms(2,3) by (simp add: take_Suc_conv_app_nth)
  then have "map seq_no (applied j (sent c)) @ [n] = [1..<Suc (Suc (length (applied j (sent c))))]"
    using conjunct1 [OF applied_numbers [OF assms(1), of "Suc j"]] by (simp add: input_of_def del: upt_Suc)
  then show ?thesis using conjunct1 [OF applied_numbers [OF assms(1), of j]] by (simp add: upt_Suc_append del: upt_Suc)
qed

lemma server_inv_recv:
  assumes "wire_inv (sys_client S)" "server_inv origin S" "srv_read S < length (sent (sys_client S))"
  shows "server_inv origin (server_recv S)"
proof -
  let ?c = "sys_client S" and ?j = "srv_read S"
  have take: "take (Suc ?j) (sent ?c) = take ?j (sent ?c) @ [sent ?c ! ?j]"
    using assms(3) by (simp add: take_Suc_conv_app_nth)
  show ?thesis
  proof (cases "sent ?c ! ?j")
    case (Keydown k n)
    have "n = Suc (length (applied ?j (sent ?c)))" using next_keydown_number [OF assms(1,3) Keydown] .
    then show ?thesis using assms(2,3) Keydown take
      by (simp add: server_inv_def server_recv_def server_apply_def replay_append input_of_def replay_def split: prod.split)
  next
    case (InitGame w h d u)
    then show ?thesis using assms(2,3) take by (simp add: server_inv_def server_recv_def server_apply_def)
  qed
qed

lemma snap_from_append: "snap_from me origin msgs j snap \<Longrightarrow> snap_from me origin (msgs @ ms) j snap"
  by (auto simp: snap_from_def split: list.splits prod.splits)

lemma server_snapshot_from:
  "server_inv origin S \<Longrightarrow> me \<notin> set (js_keys others) \<Longrightarrow> js_wf others \<Longrightarrow>
   snap_from me origin (sent (sys_client S)) (srv_read S) (server_snapshot me S bp others)"
  by (simp add: server_inv_def snap_from_def server_snapshot_def)

subsection \<open>The head of the channel\<close>

text \<open>A snapshot taken at a read position not before the one the log is trimmed
  to acknowledges an input still in the log, or exactly the number the log is
  already trimmed to.\<close>

lemma ack_consistent:
  assumes "wire_inv c" "j0 \<le> j1"
    and "playerInputs c = filter (\<lambda>i. length (applied j0 (sent c)) < seq_no i) (announced (sent c))"
  shows "length (applied j1 (sent c)) \<in> seq_no ` set (playerInputs c) \<or>
         playerInputs c = filter (\<lambda>i. length (applied j1 (sent c)) < seq_no i) (announced (sent c))"
proof (cases "length (applied j0 (sent c)) = length (applied j1 (sent c))")
  case True
  then show ?thesis using assms(3) by simp
next
  case False
  then show ?thesis using pending_seq_nos [OF assms(1,3)] length_applied_mono [OF assms(2), of "sent c"]
      length_applied_le [OF assms(1), of j1] by simp
qed

text \<open>The snapshot at the head of the channel, handled by a client whose log is
  the inputs above an earlier snapshot's acknowledgement, meets the hypotheses of
  \<open>reconcile_pending_exact\<close>: by \<open>ack_consistent\<close>, and its position is the
  server's for its number.\<close>

lemma head_snapshot_exact:
  assumes "wire_inv c" "players_inv c" "j0 \<le> j1"
    and "playerInputs c = filter (\<lambda>i. length (applied j0 (sent c)) < seq_no i) (announced (sent c))"
    and "snap_from me origin (sent c) j1 snap" "map_of (frontEndPlayers c) me = Some p"
  shows "\<exists>c'. updatePlayers me snap c = Inr c' \<and>
           playerInputs c' = filter (\<lambda>i. length (applied j1 (sent c)) < seq_no i) (announced (sent c)) \<and>
           map_option player_target (map_of (frontEndPlayers c') me) = Some (Some (predicted_position origin (sent c)))"
proof -
  obtain bp others where snap: "snap = (me, bp) # others"
    using assms(5) by (auto simp: snap_from_def split: list.splits)
  have wf: "js_wf snap" and pos: "(bp_x bp, bp_y bp) = replay (applied j1 (sent c)) origin"
    and sn: "bp_sequenceNumber bp = length (applied j1 (sent c))"
    using assms(5) by (simp_all add: snap_from_def snap)
  have ack: "bp_sequenceNumber bp \<in> seq_no ` set (playerInputs c) \<or>
             playerInputs c = filter (\<lambda>i. bp_sequenceNumber bp < seq_no i) (announced (sent c))"
    using ack_consistent [OF assms(1,3,4)] sn by simp
  have "(bp_x bp, bp_y bp) = server_position origin (bp_sequenceNumber bp) (sent c)"
    using pos sn filter_applied [OF assms(1)] by (simp add: server_position_def)
  note exact = reconcile_pending_exact [OF assms(1,4) ack this]
  have bp: "map_of snap me = Some bp" using snap by simp
  obtain c' where c': "updatePlayers me snap c = Inr c'"
      "playerInputs c' = trim_inputs (bp_sequenceNumber bp) (playerInputs c)"
      "map_option player_target (map_of (frontEndPlayers c') me) =
         Some (Some (replay (trim_inputs (bp_sequenceNumber bp) (playerInputs c)) (bp_x bp, bp_y bp)))"
    using updatePlayers_local_target [OF assms(2) wf bp assms(6)] by blast
  then show ?thesis using exact sn by auto
qed

subsection \<open>The channel\<close>

lemma sorted_bounds: "sorted (a # xs @ [b]) \<Longrightarrow> a \<le> b"
  by (simp add: sorted_append)

lemma channel_invI:
  "list_all2 (snap_from me origin (sent (sys_client S))) js (to_client S) \<Longrightarrow>
   sorted (j0 # js @ [srv_read S]) \<Longrightarrow>
   playerInputs (sys_client S) =
     filter (\<lambda>i. length (applied j0 (sent (sys_client S))) < seq_no i) (announced (sent (sys_client S))) \<Longrightarrow>
   channel_inv me origin S"
  unfolding channel_inv_def by blast

lemma channel_invE:
  assumes "channel_inv me origin S"
  obtains j0 js where "list_all2 (snap_from me origin (sent (sys_client S))) js (to_client S)"
    "sorted (j0 # js @ [srv_read S])"
    "playerInputs (sys_client S) =
       filter (\<lambda>i. length (applied j0 (sent (sys_client S))) < seq_no i) (announced (sent (sys_client S)))"
  using assms unfolding channel_inv_def by blast

lemma channel_inv_init: "channel_inv me origin (system_init r origin)"
  unfolding channel_inv_def by (intro exI [of _ 0] exI [of _ "[]"]) (simp add: system_init_def client_init_def)

lemma channel_inv_local:
  assumes "wire_inv (sys_client S)" "server_inv origin S" "channel_inv me origin S"
    and "local_event e" "client_step me (sys_client S) e = Inr c"
  shows "channel_inv me origin (S\<lparr>sys_client := c\<rparr>)"
proof -
  obtain j0 js where js: "list_all2 (snap_from me origin (sent (sys_client S))) js (to_client S)"
      and sorted: "sorted (j0 # js @ [srv_read S])"
      and log: "playerInputs (sys_client S) =
                filter (\<lambda>i. length (applied j0 (sent (sys_client S))) < seq_no i) (announced (sent (sys_client S)))"
    using assms(3) by (rule channel_invE)
  obtain ms where ms: "sent c = sent (sys_client S) @ ms" using client_step_sent_append [OF assms(5)] ..
  have j0: "j0 \<le> length (sent (sys_client S))"
    using sorted_bounds [OF sorted] assms(2) by (simp add: server_inv_def)
  have "playerInputs c = filter (\<lambda>i. length (applied j0 (sent (sys_client S))) < seq_no i) (announced (sent c))"
    using local_step_floor [OF assms(4,5) length_applied_le [OF assms(1)] log] by simp
  moreover have "list_all2 (snap_from me origin (sent c)) js (to_client S)"
    using js by (rule list_all2_mono) (simp add: ms snap_from_append)
  ultimately show ?thesis using sorted j0 ms by (intro channel_invI [of _ _ _ js j0]) simp_all
qed

lemma channel_inv_recv:
  assumes "channel_inv me origin S"
  shows "channel_inv me origin (server_recv S)"
proof -
  obtain j0 js where "list_all2 (snap_from me origin (sent (sys_client S))) js (to_client S)"
      and "sorted (j0 # js @ [srv_read S])"
      and "playerInputs (sys_client S) =
           filter (\<lambda>i. length (applied j0 (sent (sys_client S))) < seq_no i) (announced (sent (sys_client S)))"
    using assms by (rule channel_invE)
  then show ?thesis by (intro channel_invI [of _ _ _ js j0]) (auto simp: sorted_append)
qed

lemma channel_inv_send:
  assumes "server_inv origin S" "channel_inv me origin S" "me \<notin> set (js_keys others)" "js_wf others"
  shows "channel_inv me origin (S\<lparr>to_client := to_client S @ [server_snapshot me S bp others]\<rparr>)"
proof -
  obtain j0 js where js: "list_all2 (snap_from me origin (sent (sys_client S))) js (to_client S)"
      and sorted: "sorted (j0 # js @ [srv_read S])"
      and log: "playerInputs (sys_client S) =
                filter (\<lambda>i. length (applied j0 (sent (sys_client S))) < seq_no i) (announced (sent (sys_client S)))"
    using assms(2) by (rule channel_invE)
  have "list_all2 (snap_from me origin (sent (sys_client S))) (js @ [srv_read S])
          (to_client S @ [server_snapshot me S bp others])"
    using js server_snapshot_from [OF assms(1,3,4)] by (simp add: list_all2_appendI)
  moreover have "sorted (j0 # (js @ [srv_read S]) @ [srv_read S])"
    using sorted by (simp add: sorted_append)
  ultimately show ?thesis using log by (intro channel_invI [of _ _ _ "js @ [srv_read S]" j0]) simp_all
qed

text \<open>The snapshot at the head of the channel was taken at a read position not
  before the one the client's log is trimmed to.\<close>

lemma channel_head:
  assumes "channel_inv me origin S" "to_client S = snap # rest"
  obtains j0 j1 js' where "j0 \<le> j1" "snap_from me origin (sent (sys_client S)) j1 snap"
    "list_all2 (snap_from me origin (sent (sys_client S))) js' rest"
    "sorted (j0 # js' @ [srv_read S])" "sorted (j1 # js' @ [srv_read S])"
    "playerInputs (sys_client S) =
       filter (\<lambda>i. length (applied j0 (sent (sys_client S))) < seq_no i) (announced (sent (sys_client S)))"
proof -
  obtain j0 js where js: "list_all2 (snap_from me origin (sent (sys_client S))) js (to_client S)"
      and sorted: "sorted (j0 # js @ [srv_read S])"
      and log: "playerInputs (sys_client S) =
                filter (\<lambda>i. length (applied j0 (sent (sys_client S))) < seq_no i) (announced (sent (sys_client S)))"
    using assms(1) by (rule channel_invE)
  obtain j1 js' where "js = j1 # js'" "snap_from me origin (sent (sys_client S)) j1 snap"
      "list_all2 (snap_from me origin (sent (sys_client S))) js' rest"
    using js assms(2) by (auto simp: list_all2_Cons2)
  then show ?thesis using sorted log by (intro that [of j0 j1 js']) (simp_all add: sorted_append)
qed

text \<open>Handling the head snapshot keeps the invariant, whether the transport then
  drops it from the queue or delivers it again.\<close>

lemma channel_inv_deliver:
  assumes "wire_inv (sys_client S)" "players_inv (sys_client S)" "channel_inv me origin S"
    and "to_client S = snap # rest" "client_step me (sys_client S) (OnUpdatePlayers snap) = Inr c"
  shows "channel_inv me origin (S\<lparr>sys_client := c, to_client := rest\<rparr>) \<and>
         channel_inv me origin (S\<lparr>sys_client := c\<rparr>)"
proof -
  let ?c = "sys_client S"
  obtain j0 j1 js' where j01: "j0 \<le> j1" and snap: "snap_from me origin (sent ?c) j1 snap"
      and js': "list_all2 (snap_from me origin (sent ?c)) js' rest"
      and sorted: "sorted (j0 # js' @ [srv_read S])" "sorted (j1 # js' @ [srv_read S])"
      and log: "playerInputs ?c = filter (\<lambda>i. length (applied j0 (sent ?c)) < seq_no i) (announced (sent ?c))"
    using assms(3,4) by (rule channel_head)
  have up: "updatePlayers me snap ?c = Inr c" using assms(5) by (simp add: client_step_def)
  have sent: "sent c = sent ?c" using updatePlayers_frame [OF up] by (simp add: players_frame_def)
  have wf: "js_wf snap" using snap by (simp add: snap_from_def)
  have queue: "list_all2 (snap_from me origin (sent c)) (j1 # js') (to_client S)"
    using snap js' assms(4) sent by simp
  show ?thesis
  proof (cases "map_of (frontEndPlayers ?c) me")
    case None
    then have log': "playerInputs c = playerInputs ?c"
      using updatePlayers_result [OF wf up] by (simp split: option.split)
    have "channel_inv me origin (S\<lparr>sys_client := c, to_client := rest\<rparr>)"
      using js' sorted(1) log log' sent by (intro channel_invI [of _ _ _ js' j0]) simp_all
    moreover have "channel_inv me origin (S\<lparr>sys_client := c\<rparr>)"
      using queue j01 sorted log log' sent by (intro channel_invI [of _ _ _ "j1 # js'" j0]) simp_all
    ultimately show ?thesis ..
  next
    case (Some p)
    from head_snapshot_exact [OF assms(1,2) j01 log snap Some] up
    have log': "playerInputs c = filter (\<lambda>i. length (applied j1 (sent ?c)) < seq_no i) (announced (sent ?c))"
      by auto
    have "channel_inv me origin (S\<lparr>sys_client := c, to_client := rest\<rparr>)"
      using js' sorted(2) log' sent by (intro channel_invI [of _ _ _ js' j1]) simp_all
    moreover have "channel_inv me origin (S\<lparr>sys_client := c\<rparr>)"
      using queue sorted(2) log' sent by (intro channel_invI [of _ _ _ "j1 # js'" j1]) simp_all
    ultimately show ?thesis ..
  qed
qed

text \<open>The acknowledgements of the queued snapshots are those of their read positions.\<close>

lemma queue_acks:
  assumes "list_all2 (snap_from me origin msgs) js q"
  shows "map (\<lambda>snap. bp_sequenceNumber (the (map_of snap me))) q = map (\<lambda>j. length (applied j msgs)) js \<and>
         (\<forall>snap\<in>set q. \<exists>j\<in>set js. snap_from me origin msgs j snap)"
  using assms by (induction rule: list_all2_induct) (auto simp: snap_from_def split: list.splits)

lemma sorted_applied: "sorted js \<Longrightarrow> sorted (map (\<lambda>j. length (applied j msgs)) js)"
  by (induction js) (auto intro: length_applied_mono)

subsection \<open>The invariant of the composed system\<close>

lemma sys_inv:
  "sys_reachable me r origin S \<Longrightarrow> server_inv origin S \<and> channel_inv me origin S"
proof (induction rule: sys_reachable.induct)
  case init
  show ?case using server_inv_init channel_inv_init by blast
next
  case (local S e c)
  have "wire_inv (sys_client S)" using reachable_wire_inv [OF sys_reachable_client [OF local.hyps(1)]] .
  then show ?case using local server_inv_client channel_inv_local by blast
next
  case (recv S)
  have "wire_inv (sys_client S)" using reachable_wire_inv [OF sys_reachable_client [OF recv.hyps(1)]] .
  then show ?case using recv server_inv_recv channel_inv_recv by blast
next
  case (send S others bp)
  then show ?case using channel_inv_send by (simp add: server_inv_def server_snapshot_def)
next
  case (deliver S snap rest c)
  have r: "reachable me r (sys_client S)" using sys_reachable_client [OF deliver.hyps(1)] .
  have "server_inv origin (S\<lparr>sys_client := c, to_client := rest\<rparr>)"
    using server_inv_client [of origin S me _ c] deliver by (simp add: server_inv_def)
  moreover have "channel_inv me origin (S\<lparr>sys_client := c, to_client := rest\<rparr>)"
    using channel_inv_deliver [OF reachable_wire_inv [OF r] _ _ deliver.hyps(2,3)]
      reachable_client_inv [OF r] deliver.IH by (simp add: client_inv_def)
  ultimately show ?case ..
next
  case (redeliver S snap rest c)
  have r: "reachable me r (sys_client S)" using sys_reachable_client [OF redeliver.hyps(1)] .
  have "server_inv origin (S\<lparr>sys_client := c\<rparr>)"
    using server_inv_client [of origin S me _ c] redeliver by simp
  moreover have "channel_inv me origin (S\<lparr>sys_client := c\<rparr>)"
    using channel_inv_deliver [OF reachable_wire_inv [OF r] _ _ redeliver.hyps(2,3)]
      reachable_client_inv [OF r] redeliver.IH by (simp add: client_inv_def)
  ultimately show ?case ..
qed

lemma sys_reachable_run:
  "sys_reachable me r origin S \<Longrightarrow> list_all local_event evs \<Longrightarrow> run me (sys_client S) evs = Inr c \<Longrightarrow>
   sys_reachable me r origin (S\<lparr>sys_client := c\<rparr>)"
proof (induction evs arbitrary: S)
  case Nil
  then show ?case by (cases S) auto
next
  case (Cons e evs)
  from Cons.prems(3) obtain c1 where c1: "client_step me (sys_client S) e = Inr c1"
      "run me c1 evs = Inr c"
    by (auto simp: js_then_Inr_iff)
  have "sys_reachable me r origin (S\<lparr>sys_client := c1\<rparr>)"
    using sys_reachable.local [OF Cons.prems(1) _ c1(1)] Cons.prems(2) by simp
  then show ?case using Cons.IH [of "S\<lparr>sys_client := c1\<rparr>"] Cons.prems(2) c1(2) by simp
qed

text \<open>A run of the composed system: the first snapshot adds the local player and
  it presses \<open>W\<close> for two ticks; the server has read nothing yet.\<close>

lemma sys_example_keys:
  "\<exists>S. sys_reachable ''me'' None (50, 50) S \<and> to_client S = [] \<and>
       map_of (frontEndPlayers (sys_client S)) ''me'' = Some (Player_new 50 50 10 ''red'' ''ann'') \<and>
       sent (sys_client S) = [Keydown KeyW 1, Keydown KeyW 2] \<and>
       srv_read S = 0 \<and> srv_pos S = (50, 50) \<and> srv_ack S = 0"
proof -
  let ?bp0 = "\<lparr>bp_x = 50, bp_y = 50, bp_color = ''red'', bp_username = ''ann'', bp_score = 0, bp_sequenceNumber = 0\<rparr>"
  let ?S0 = "system_init None (50, 50)"
  let ?c1 = "(client_init None)\<lparr>frontEndPlayers := [(''me'', Player_new 50 50 10 ''red'' ''ann'')],
        playerLabels := [\<lparr>lbl_id = ''me'', lbl_username = ''ann'', lbl_score = 0\<rparr>]\<rparr>"
  let ?S1 = "?S0\<lparr>to_client := to_client ?S0 @ [server_snapshot ''me'' ?S0 ?bp0 []]\<rparr>"
  have s1: "sys_reachable ''me'' None (50, 50) ?S1"
    by (intro sys_reachable.send sys_reachable.init) simp_all
  have s2: "sys_reachable ''me'' None (50, 50) (?S1\<lparr>sys_client := ?c1, to_client := []\<rparr>)"
    using sys_reachable.deliver [OF s1, of "[(''me'', ?bp0)]" "[]" ?c1] first_join_step
    by (simp add: system_init_def server_snapshot_def)
  let ?S2 = "?S1\<lparr>sys_client := ?c1, to_client := []\<rparr>"
  let ?evs = "[OnKeydown ''KeyW'', OnInterval, OnInterval]"
  have "case run ''me'' ?c1 ?evs of
          Inl e \<Rightarrow> False
        | Inr c \<Rightarrow> frontEndPlayers c = [(''me'', Player_new 50 50 10 ''red'' ''ann'')] \<and>
                   sent c = [Keydown KeyW 1, Keydown KeyW 2]"
    by (simp add: client_eval_simps cong: js_then_weak_cong)
  then obtain c3 where r: "run ''me'' ?c1 ?evs = Inr c3"
      and c3: "frontEndPlayers c3 = [(''me'', Player_new 50 50 10 ''red'' ''ann'')]"
        "sent c3 = [Keydown KeyW 1, Keydown KeyW 2]"
    by (cases "run ''me'' ?c1 ?evs") auto
  have "sys_reachable ''me'' None (50, 50) (?S2\<lparr>sys_client := c3\<rparr>)"
    using sys_reachable_run [OF s2, of ?evs c3] r by simp
  then show ?thesis using c3 by (intro exI [of _ "?S2\<lparr>sys_client := c3\<rparr>"]) (simp add: system_init_def)
qed

text \<open>The same run after the server has read the first \<open>keydown\<close> and sent a
  snapshot.\<close>

lemma sys_example_run:
  "\<exists>S. sys_reachable ''me'' None (50, 50) S \<and>
       to_client S = [[(''me'', \<lparr>bp_x = 50, bp_y = 45, bp_color = ''red'', bp_username = ''ann'', bp_score = 0, bp_sequenceNumber = 1\<rparr>)]] \<and>
       map_of (frontEndPlayers (sys_client S)) ''me'' = Some (Player_new 50 50 10 ''red'' ''ann'') \<and>
       sent (sys_client S) = [Keydown KeyW 1, Keydown KeyW 2] \<and>
       srv_read S = 1 \<and> srv_pos S = (50, 45) \<and> srv_ack S = 1"
proof -
  let ?bp0 = "\<lparr>bp_x = 50, bp_y = 50, bp_color = ''red'', bp_username = ''ann'', bp_score = 0, bp_sequenceNumber = 0\<rparr>"
  obtain S where s: "sys_reachable ''me'' None (50, 50) S" and S: "to_client S = []"
      "map_of (frontEndPlayers (sys_client S)) ''me'' = Some (Player_new 50 50 10 ''red'' ''ann'')"
      "sent (sys_client S) = [Keydown KeyW 1, Keydown KeyW 2]" "srv_read S = 0" "srv_pos S = (50, 50)"
    using sys_example_keys by blast
  have s4: "sys_reachable ''me'' None (50, 50) (server_recv S)"
    using sys_reachable.recv [OF s] S by simp
  have S4: "srv_read (server_recv S) = 1" "srv_pos (server_recv S) = (50, 45)" "srv_ack (server_recv S) = 1"
    using S by (simp_all add: server_recv_def server_apply_def SPEED_def)
  have "sys_reachable ''me'' None (50, 50)
          (server_recv S\<lparr>to_client := to_client (server_recv S) @ [server_snapshot ''me'' (server_recv S) ?bp0 []]\<rparr>)"
    using sys_reachable.send [OF s4, of "[]"] by simp
  then show ?thesis using S S4
    by (intro exI [of _ "server_recv S\<lparr>to_client := to_client (server_recv S) @ [server_snapshot ''me'' (server_recv S) ?bp0 []]\<rparr>"])
      (simp add: server_snapshot_def)
qed

subsection \<open>A duplicated \<open>keydown\<close>\<close>

lemma replay_shift:
  "replay xs (fst t + a, snd t + b) = (fst (replay xs t) + a, snd (replay xs t) + b)"
  by (cases t) (simp add: replay_sum)

lemma applied_last_keydown:
  assumes "wire_inv c" "0 < j" "j \<le> length (sent c)" "sent c ! (j - 1) = Keydown k n"
  shows "n = length (applied j (sent c))"
proof -
  have j: "j - 1 < length (sent c)" using assms(2,3) by simp
  have "n = Suc (length (applied (j - 1) (sent c)))" using next_keydown_number [OF assms(1) j assms(4)] .
  moreover have "applied j (sent c) = applied (j - 1) (sent c) @ [input_of n k]"
    using take_Suc_conv_app_nth [OF j] assms(2,4) by simp
  ultimately show ?thesis by simp
qed

subsection \<open>Properties of the composed system\<close>

text \<open>C29. In every state of the client composed with the server over the
  ordered transport, the snapshot at the head of the \<open>updatePlayers\<close>
  channel, once the local player is in the store, is handled without error; its
  entry for the local player acknowledges some number, the pending log becomes
  exactly the inputs sent with a greater number, and the local player's target
  becomes the position after every input the client has sent.\<close>

theorem system_snapshot_exact:
  assumes "sys_reachable me r origin S" "to_client S = snap # rest"
    and "map_of (frontEndPlayers (sys_client S)) me = Some p"
  shows "\<exists>c' bp. client_step me (sys_client S) (OnUpdatePlayers snap) = Inr c' \<and> map_of snap me = Some bp \<and>
           playerInputs c' = filter (\<lambda>i. bp_sequenceNumber bp < seq_no i) (announced (sent (sys_client S))) \<and>
           map_option player_target (map_of (frontEndPlayers c') me) =
             Some (Some (predicted_position origin (sent (sys_client S))))"
proof -
  let ?c = "sys_client S"
  have r: "reachable me r ?c" using sys_reachable_client [OF assms(1)] .
  have wire: "wire_inv ?c" and pinv: "players_inv ?c"
    using reachable_wire_inv [OF r] reachable_client_inv [OF r] by (simp_all add: client_inv_def)
  obtain j0 j1 js' where j01: "j0 \<le> j1" and snap: "snap_from me origin (sent ?c) j1 snap"
      and log: "playerInputs ?c = filter (\<lambda>i. length (applied j0 (sent ?c)) < seq_no i) (announced (sent ?c))"
    using conjunct2 [OF sys_inv [OF assms(1)]] assms(2) by (rule channel_head)
  obtain bp others where bp: "snap = (me, bp) # others" "bp_sequenceNumber bp = length (applied j1 (sent ?c))"
    using snap by (auto simp: snap_from_def split: list.splits)
  from head_snapshot_exact [OF wire pinv j01 log snap assms(3)]
  show ?thesis using bp by (auto simp: client_step_def)
qed

theorem system_snapshot_exact_witness:
  "\<exists>S. sys_reachable ''me'' None (50, 50) S \<and>
       to_client S = [[(''me'', \<lparr>bp_x = 50, bp_y = 45, bp_color = ''red'', bp_username = ''ann'', bp_score = 0, bp_sequenceNumber = 1\<rparr>)]] \<and>
       map_of (frontEndPlayers (sys_client S)) ''me'' = Some (Player_new 50 50 10 ''red'' ''ann'') \<and>
       (\<exists>c'. client_step ''me'' (sys_client S)
               (OnUpdatePlayers [(''me'', \<lparr>bp_x = 50, bp_y = 45, bp_color = ''red'', bp_username = ''ann'', bp_score = 0, bp_sequenceNumber = 1\<rparr>)]) = Inr c' \<and>
             playerInputs c' = [input_of 2 KeyW] \<and>
             map_option player_target (map_of (frontEndPlayers c') ''me'') = Some (Some (50, 40)))"
proof -
  let ?bp1 = "\<lparr>bp_x = 50, bp_y = 45, bp_color = ''red'', bp_username = ''ann'', bp_score = 0, bp_sequenceNumber = 1\<rparr>"
  obtain S where s: "sys_reachable ''me'' None (50, 50) S" and q: "to_client S = [[(''me'', ?bp1)]]"
      and p: "map_of (frontEndPlayers (sys_client S)) ''me'' = Some (Player_new 50 50 10 ''red'' ''ann'')"
      and sent: "sent (sys_client S) = [Keydown KeyW 1, Keydown KeyW 2]"
    using sys_example_run by blast
  obtain c' bp where c': "client_step ''me'' (sys_client S) (OnUpdatePlayers [(''me'', ?bp1)]) = Inr c'"
      "map_of [(''me'', ?bp1)] ''me'' = Some bp"
      "playerInputs c' = filter (\<lambda>i. bp_sequenceNumber bp < seq_no i) (announced (sent (sys_client S)))"
      "map_option player_target (map_of (frontEndPlayers c') ''me'') =
         Some (Some (predicted_position (50, 50) (sent (sys_client S))))"
    using system_snapshot_exact [OF s q p] by blast
  have "predicted_position (50, 50) (sent (sys_client S)) = (50, 40)"
    using sent by (simp add: predicted_position_def replay_def input_of_def SPEED_def)
  then show ?thesis using s q p c' sent by auto
qed

text \<open>C30. Once the local player stops moving, the client converges to the
  server: in any state of the composed system where the server has read every
  message the client sent and no snapshot is in flight, the next snapshot the
  server sends is handled without error and leaves the system in a reachable
  state where the pending log is empty and the local player's target is the
  server's position.\<close>

theorem system_converges_when_idle:
  assumes "sys_reachable me r origin S" "srv_read S = length (sent (sys_client S))" "to_client S = []"
    and "map_of (frontEndPlayers (sys_client S)) me = Some p" "me \<notin> set (js_keys others)" "js_wf others"
  shows "\<exists>c'. client_step me (sys_client S) (OnUpdatePlayers (server_snapshot me S bp others)) = Inr c' \<and>
           sys_reachable me r origin (S\<lparr>sys_client := c'\<rparr>) \<and> playerInputs c' = [] \<and>
           map_option player_target (map_of (frontEndPlayers c') me) = Some (Some (srv_pos S))"
proof -
  let ?c = "sys_client S" and ?snap = "server_snapshot me S bp others"
  have r: "reachable me r ?c" using sys_reachable_client [OF assms(1)] .
  have wire: "wire_inv ?c" and pinv: "players_inv ?c"
    using reachable_wire_inv [OF r] reachable_client_inv [OF r] by (simp_all add: client_inv_def)
  have srv: "server_inv origin S" and ch: "channel_inv me origin S" using sys_inv [OF assms(1)] by blast+
  obtain j0 js where sorted: "sorted (j0 # js @ [srv_read S])"
      and log: "playerInputs ?c = filter (\<lambda>i. length (applied j0 (sent ?c)) < seq_no i) (announced (sent ?c))"
    using ch by (rule channel_invE)
  have all: "applied (srv_read S) (sent ?c) = announced (sent ?c)" using assms(2) by simp
  obtain c' where c': "updatePlayers me ?snap ?c = Inr c'"
      "playerInputs c' = filter (\<lambda>i. length (announced (sent ?c)) < seq_no i) (announced (sent ?c))"
      "map_option player_target (map_of (frontEndPlayers c') me) = Some (Some (predicted_position origin (sent ?c)))"
    using head_snapshot_exact [OF wire pinv sorted_bounds [OF sorted] log
        server_snapshot_from [OF srv assms(5,6), of bp] assms(4)] all by auto
  have "playerInputs c' = []"
    using c'(2) filter_applied [OF wire, of "srv_read S"] all by (simp add: filter_empty_conv filter_id_conv not_less)
  moreover have "srv_pos S = predicted_position origin (sent ?c)"
    using srv all by (simp add: server_inv_def predicted_position_def)
  moreover have "sys_reachable me r origin (S\<lparr>sys_client := c'\<rparr>)"
  proof -
    have "sys_reachable me r origin (S\<lparr>sys_client := c', to_client := []\<rparr>)"
      using sys_reachable.deliver [OF sys_reachable.send [OF assms(1,5,6), of bp], of ?snap "[]" c'] c'(1) assms(3)
      by (simp add: client_step_def)
    moreover have "S\<lparr>sys_client := c', to_client := []\<rparr> = S\<lparr>sys_client := c'\<rparr>"
      using assms(3) by (cases S) simp
    ultimately show ?thesis by (simp only:)
  qed
  ultimately show ?thesis using c' by (simp add: client_step_def)
qed

theorem system_converges_when_idle_witness:
  "\<exists>S. sys_reachable ''me'' None (50, 50) S \<and> srv_read S = length (sent (sys_client S)) \<and> to_client S = [] \<and>
       srv_pos S = (50, 40) \<and>
       (\<exists>c'. client_step ''me'' (sys_client S)
               (OnUpdatePlayers (server_snapshot ''me'' S
                  \<lparr>bp_x = 0, bp_y = 0, bp_color = ''red'', bp_username = ''ann'', bp_score = 0, bp_sequenceNumber = 0\<rparr> [])) = Inr c' \<and>
             playerInputs c' = [] \<and>
             map_option player_target (map_of (frontEndPlayers c') ''me'') = Some (Some (50, 40)))"
proof -
  obtain S where s: "sys_reachable ''me'' None (50, 50) S" and S: "to_client S = []"
      "map_of (frontEndPlayers (sys_client S)) ''me'' = Some (Player_new 50 50 10 ''red'' ''ann'')"
      "sent (sys_client S) = [Keydown KeyW 1, Keydown KeyW 2]" "srv_read S = 0" "srv_pos S = (50, 50)"
    using sys_example_keys by blast
  let ?S = "server_recv (server_recv S)"
  have s2: "sys_reachable ''me'' None (50, 50) ?S"
    using sys_reachable.recv [OF sys_reachable.recv [OF s]] S by simp
  have S2: "srv_read ?S = 2" "srv_pos ?S = (50, 40)" "to_client ?S = []" "sys_client ?S = sys_client S"
    using S by (simp_all add: server_recv_def server_apply_def SPEED_def)
  have "srv_read ?S = length (sent (sys_client ?S))" using S2 S by simp
  from system_converges_when_idle [OF s2 this S2(3) _ _,
      of "Player_new 50 50 10 ''red'' ''ann''" "[]"
         "\<lparr>bp_x = 0, bp_y = 0, bp_color = ''red'', bp_username = ''ann'', bp_score = 0, bp_sequenceNumber = 0\<rparr>"] S S2
  show ?thesis using s2 by auto
qed

text \<open>C31. Under the transport of the specification the acknowledgements the
  client receives are never out of order: along the \<open>updatePlayers\<close> queue
  the numbers echoed for the local player never decrease, none exceeds the
  server's last applied input, and each is either an input still in the
  client's pending log or exactly the number the log is already trimmed to.
  The edge case of spec section 4.3 (an acknowledgement that would mis-trim)
  does not arise; a repeated acknowledgement does, and is the second case.\<close>

theorem system_acks_in_order:
  assumes "sys_reachable me r origin S"
  shows "sorted (map (\<lambda>snap. bp_sequenceNumber (the (map_of snap me))) (to_client S)) \<and>
         (\<forall>snap\<in>set (to_client S). \<exists>bp. map_of snap me = Some bp \<and> bp_sequenceNumber bp \<le> srv_ack S \<and>
            (bp_sequenceNumber bp \<in> seq_no ` set (playerInputs (sys_client S)) \<or>
             playerInputs (sys_client S) =
               filter (\<lambda>i. bp_sequenceNumber bp < seq_no i) (announced (sent (sys_client S)))))"
proof -
  let ?c = "sys_client S"
  have wire: "wire_inv ?c" using reachable_wire_inv [OF sys_reachable_client [OF assms]] .
  have srv: "server_inv origin S" and ch: "channel_inv me origin S" using sys_inv [OF assms] by blast+
  obtain j0 js where js: "list_all2 (snap_from me origin (sent ?c)) js (to_client S)"
      and sorted: "sorted (j0 # js @ [srv_read S])"
      and log: "playerInputs ?c = filter (\<lambda>i. length (applied j0 (sent ?c)) < seq_no i) (announced (sent ?c))"
    using ch by (rule channel_invE)
  note q = queue_acks [OF js]
  have "sorted (map (\<lambda>j. length (applied j (sent ?c))) js)"
    using sorted by (intro sorted_applied) (simp add: sorted_append)
  moreover have "\<exists>bp. map_of snap me = Some bp \<and> bp_sequenceNumber bp \<le> srv_ack S \<and>
            (bp_sequenceNumber bp \<in> seq_no ` set (playerInputs ?c) \<or>
             playerInputs ?c = filter (\<lambda>i. bp_sequenceNumber bp < seq_no i) (announced (sent ?c)))"
    if queued: "snap \<in> set (to_client S)" for snap
  proof -
    obtain j where j: "j \<in> set js" "snap_from me origin (sent ?c) j snap"
      using bspec [OF conjunct2 [OF q] queued] ..
    obtain bp others where snap: "snap = (me, bp) # others" "bp_sequenceNumber bp = length (applied j (sent ?c))"
      using j(2) by (auto simp: snap_from_def split: list.splits)
    have "j0 \<le> j" "j \<le> srv_read S" using sorted j(1) by (auto simp: sorted_append)
    then show ?thesis using ack_consistent [OF wire _ log, of j] length_applied_mono [of j "srv_read S" "sent ?c"] srv snap
      by (simp add: server_inv_def)
  qed
  ultimately show ?thesis using conjunct1 [OF q] by simp
qed

theorem system_acks_in_order_witness:
  "\<exists>S. sys_reachable ''me'' None (50, 50) S \<and>
       to_client S = [[(''me'', \<lparr>bp_x = 50, bp_y = 45, bp_color = ''red'', bp_username = ''ann'', bp_score = 0, bp_sequenceNumber = 1\<rparr>)]] \<and>
       srv_ack S = 1 \<and>
       sorted (map (\<lambda>snap. bp_sequenceNumber (the (map_of snap ''me''))) (to_client S)) \<and>
       (\<forall>snap\<in>set (to_client S). \<exists>bp. map_of snap ''me'' = Some bp \<and> bp_sequenceNumber bp \<le> srv_ack S \<and>
          (bp_sequenceNumber bp \<in> seq_no ` set (playerInputs (sys_client S)) \<or>
           playerInputs (sys_client S) =
             filter (\<lambda>i. bp_sequenceNumber bp < seq_no i) (announced (sent (sys_client S)))))"
proof -
  obtain S where s: "sys_reachable ''me'' None (50, 50) S"
      and q: "to_client S = [[(''me'', \<lparr>bp_x = 50, bp_y = 45, bp_color = ''red'', bp_username = ''ann'', bp_score = 0, bp_sequenceNumber = 1\<rparr>)]]"
      and a: "srv_ack S = 1"
    using sys_example_run by blast
  show ?thesis using system_acks_in_order [OF s] s q a by blast
qed

text \<open>C22. The transport the specification assumes delivers at least once, and
  neither the client nor the protocol of sections 4.2 and 6 deduplicates
  \<open>keydown\<close> messages.  When the last \<open>keydown\<close> the server read is
  delivered again and the server applies it again, as it applies every
  \<open>keydown\<close> it receives, the next snapshot is handled without error and
  the client adopts the doubled move: the local target ends one displacement of
  that key past the position after every input the client sent, and nothing
  detects the mismatch.\<close>

theorem duplicate_keydown_overshoots:
  assumes "sys_reachable me r origin S" "0 < srv_read S"
    and "sent (sys_client S) ! (srv_read S - 1) = Keydown k n"
    and "map_of (frontEndPlayers (sys_client S)) me = Some p" "me \<notin> set (js_keys others)" "js_wf others"
  shows "\<exists>c'. client_step me (sys_client S) (OnUpdatePlayers (server_snapshot me (server_recv_dup S) bp others)) = Inr c' \<and>
           map_option player_target (map_of (frontEndPlayers c') me) =
             Some (Some (fst (predicted_position origin (sent (sys_client S))) + fst (key_delta k),
                         snd (predicted_position origin (sent (sys_client S))) + snd (key_delta k)))"
proof -
  let ?c = "sys_client S" and ?j = "srv_read S"
  let ?A = "announced (sent ?c)"
  have rc: "reachable me r ?c" using sys_reachable_client [OF assms(1)] .
  have wire: "wire_inv ?c" and pinv: "players_inv ?c"
    using reachable_wire_inv [OF rc] reachable_client_inv [OF rc] by (simp_all add: client_inv_def)
  have srv: "server_inv origin S" and ch: "channel_inv me origin S" using sys_inv [OF assms(1)] by blast+
  obtain j0 js where sorted: "sorted (j0 # js @ [?j])"
      and log: "playerInputs ?c = filter (\<lambda>i. length (applied j0 (sent ?c)) < seq_no i) ?A"
    using ch by (rule channel_invE)
  have jle: "?j \<le> length (sent ?c)" using srv by (simp add: server_inv_def)
  have n: "n = length (applied ?j (sent ?c))" using applied_last_keydown [OF wire assms(2) jle assms(3)] .
  define bp' where "bp' = bp\<lparr>bp_x := fst (srv_pos S) + fst (key_delta k), bp_y := snd (srv_pos S) + snd (key_delta k),
                          bp_sequenceNumber := n\<rparr>"
  have snap: "server_snapshot me (server_recv_dup S) bp others = (me, bp') # others"
    using assms(3) by (simp add: server_snapshot_def server_recv_dup_def server_apply_def bp'_def)
  have wf: "js_wf ((me, bp') # others)" using assms(5,6) by simp
  have lk: "map_of ((me, bp') # others) me = Some bp'" by simp
  have ack: "n \<in> seq_no ` set (playerInputs ?c) \<or> playerInputs ?c = filter (\<lambda>i. n < seq_no i) ?A"
    using ack_consistent [OF wire sorted_bounds [OF sorted] log] n by simp
  have trim: "trim_inputs n (playerInputs ?c) = filter (\<lambda>i. n < seq_no i) ?A"
    using trim_pending [OF wire log ack] .
  obtain c' where c': "updatePlayers me ((me, bp') # others) ?c = Inr c'"
      "map_option player_target (map_of (frontEndPlayers c') me) =
         Some (Some (replay (trim_inputs (bp_sequenceNumber bp') (playerInputs ?c)) (bp_x bp', bp_y bp')))"
    using updatePlayers_local_target [OF pinv wf lk assms(4)] by blast
  have pos: "srv_pos S = replay (filter (\<lambda>i. seq_no i \<le> n) ?A) origin"
    using srv filter_applied [OF wire, of ?j] n by (simp add: server_inv_def)
  have "replay (filter (\<lambda>i. n < seq_no i) ?A) (bp_x bp', bp_y bp') =
        (fst (predicted_position origin (sent ?c)) + fst (key_delta k),
         snd (predicted_position origin (sent ?c)) + snd (key_delta k))"
    using replay_split [of n ?A origin] pos
    by (simp add: bp'_def replay_shift predicted_position_def)
  then show ?thesis using c' trim snap by (simp add: client_step_def bp'_def)
qed

theorem duplicate_keydown_overshoots_witness:
  "\<exists>S. sys_reachable ''me'' None (50, 50) S \<and> 0 < srv_read S \<and>
       sent (sys_client S) ! (srv_read S - 1) = Keydown KeyW 2 \<and>
       predicted_position (50, 50) (sent (sys_client S)) = (50, 40) \<and>
       (\<exists>c'. client_step ''me'' (sys_client S)
               (OnUpdatePlayers (server_snapshot ''me'' (server_recv_dup S)
                  \<lparr>bp_x = 0, bp_y = 0, bp_color = ''red'', bp_username = ''ann'', bp_score = 0, bp_sequenceNumber = 0\<rparr> [])) = Inr c' \<and>
             map_option player_target (map_of (frontEndPlayers c') ''me'') = Some (Some (50, 35)))"
proof -
  obtain S where s: "sys_reachable ''me'' None (50, 50) S"
      and S: "map_of (frontEndPlayers (sys_client S)) ''me'' = Some (Player_new 50 50 10 ''red'' ''ann'')"
      "sent (sys_client S) = [Keydown KeyW 1, Keydown KeyW 2]" "srv_read S = 0"
    using sys_example_keys by blast
  let ?S = "server_recv (server_recv S)"
  have s2: "sys_reachable ''me'' None (50, 50) ?S"
    using sys_reachable.recv [OF sys_reachable.recv [OF s]] S by simp
  have S2: "0 < srv_read ?S" "sent (sys_client ?S) ! (srv_read ?S - 1) = Keydown KeyW 2"
      "map_of (frontEndPlayers (sys_client ?S)) ''me'' = Some (Player_new 50 50 10 ''red'' ''ann'')"
    using S by simp_all
  have "predicted_position (50, 50) (sent (sys_client ?S)) = (50, 40)"
    using S by (simp add: predicted_position_def replay_def input_of_def SPEED_def)
  with duplicate_keydown_overshoots [OF s2 S2(1,2,3), of "[]"] s2 S2
  show ?thesis by (auto simp: SPEED_def)
qed

end
