(* ===== verification/ForIn.thy ===== *)
theory ForIn
  imports Projectiles
begin

text \<open>
  The removal loop of \<open>updateProjectiles\<close> (lines 50--54) iterates with
  \<open>for (const id in frontEndProjectiles)\<close> over the object its body
  (\<open>removeProjectile_body\<close>) deletes from.  ECMAScript's enumeration of an object being mutated
  (\<open>EnumerateObjectProperties\<close>) visits the string keys in insertion order,
  never visits a key twice, and does not visit a key deleted before it is
  reached.  \<^const>\<open>removeProjectiles_loop\<close> in the model of the handler
  instead iterates over the list of keys taken before the loop; this theory
  justifies that choice.  \<open>forin_removeProjectiles\<close> runs the loop on the
  live object: at each step it takes the first key of the current object it has
  not visited yet and runs the body on it.  It is a \<^theory_text>\<open>function\<close>
  whose termination is proved by the number of present keys not yet visited.
  Its lemmas show that it visits every key of the object exactly once, in
  insertion order, and leaves the same object as the model's loop.
\<close>

text \<open>Lines 51--53, the body: \<open>if (!backEndProjectiles[id]) delete frontEndProjectiles[id]\<close>.\<close>

definition removeProjectile_body ::
  "backend_projectile js_object \<Rightarrow> ident \<Rightarrow> projectile js_object \<Rightarrow> projectile js_object" where
  "removeProjectile_body snap k projs = (if map_of snap k = None then AList.delete k projs else projs)"

function forin_removeProjectiles ::
  "backend_projectile js_object \<Rightarrow> ident list \<Rightarrow> projectile js_object \<Rightarrow> ident list \<times> projectile js_object" where
  "forin_removeProjectiles snap visited projs =
     (case find (\<lambda>k. k \<notin> set visited) (js_keys projs) of
        None \<Rightarrow> (visited, projs)
      | Some k \<Rightarrow> forin_removeProjectiles snap (visited @ [k]) (removeProjectile_body snap k projs))"
  by pat_completeness auto

termination
proof (relation "measure (\<lambda>(snap, visited, projs). length (filter (\<lambda>x. x \<notin> set visited) (js_keys projs)))",
       goal_cases)
  case 1
  show ?case by simp
next
  text \<open>Each step visits a present key not visited before, and the body at most
    deletes that key.\<close>
  case (2 snap visited projs k)
  have k: "k \<in> set (filter (\<lambda>x. x \<notin> set visited) (js_keys projs))"
    using 2 by (auto simp: find_Some_iff)
  have "filter (\<lambda>x. x \<notin> set (visited @ [k])) (js_keys (removeProjectile_body snap k projs)) =
        filter (\<lambda>x. x \<noteq> k) (filter (\<lambda>x. x \<notin> set visited) (js_keys projs))"
    by (auto simp: removeProjectile_body_def keys_delete filter_filter intro: filter_cong)
  then show ?case using length_filter_less [OF k, of "\<lambda>x. x \<noteq> k"] by (simp only: in_measure prod.case) simp
qed

declare forin_removeProjectiles.simps [simp del]

subsection \<open>What the live loop does\<close>

lemma forin_step:
  "find (\<lambda>k. k \<notin> set visited) (js_keys projs) = Some k \<Longrightarrow>
   forin_removeProjectiles snap visited projs =
   forin_removeProjectiles snap (visited @ [k]) (removeProjectile_body snap k projs)"
  by (simp add: forin_removeProjectiles.simps)

lemma forin_done:
  "find (\<lambda>k. k \<notin> set visited) (js_keys projs) = None \<Longrightarrow>
   forin_removeProjectiles snap visited projs = (visited, projs)"
  by (simp add: forin_removeProjectiles.simps)

text \<open>The body keeps the object or deletes the visited key, nothing else.\<close>

lemma keys_removeProjectile_body:
  "js_keys (removeProjectile_body snap k projs) = js_keys projs \<or>
   js_keys (removeProjectile_body snap k projs) = filter (\<lambda>x. x \<noteq> k) (js_keys projs)"
  by (simp add: removeProjectile_body_def keys_delete)

lemma forin_visits:
  "js_wf projs \<Longrightarrow>
   fst (forin_removeProjectiles snap visited projs) = visited @ filter (\<lambda>k. k \<notin> set visited) (js_keys projs)"
proof (induction snap visited projs rule: forin_removeProjectiles.induct)
  case (1 snap visited projs)
  show ?case
  proof (cases "find (\<lambda>k. k \<notin> set visited) (js_keys projs)")
    case None
    then have "filter (\<lambda>k. k \<notin> set visited) (js_keys projs) = []"
      by (simp add: find_None_iff filter_empty_conv)
    then show ?thesis using forin_done [OF None] by simp
  next
    case (Some k)
    let ?p' = "removeProjectile_body snap k projs"
    have wf': "js_wf ?p'" using "1.prems" keys_removeProjectile_body [of snap k projs] by auto
    have "filter (\<lambda>x. x \<notin> set (visited @ [k])) (js_keys ?p') =
          filter (\<lambda>x. x \<notin> set visited \<and> x \<noteq> k) (js_keys projs)"
      using keys_removeProjectile_body [of snap k projs] by (auto simp: filter_filter intro: filter_cong)
    then have "filter (\<lambda>x. x \<notin> set visited) (js_keys projs) =
               k # filter (\<lambda>x. x \<notin> set (visited @ [k])) (js_keys ?p')"
      using filter_find [OF Some "1.prems"] by simp
    then show ?thesis using "1.IH" [OF Some wf'] forin_step [OF Some, of snap] by simp
  qed
qed

lemma forin_result:
  "\<forall>k\<in>set visited. k \<in> set (js_keys projs) \<longrightarrow> map_of snap k \<noteq> None \<Longrightarrow>
   snd (forin_removeProjectiles snap visited projs) = filter (\<lambda>e. map_of snap (fst e) \<noteq> None) projs"
proof (induction snap visited projs rule: forin_removeProjectiles.induct)
  case (1 snap visited projs)
  show ?case
  proof (cases "find (\<lambda>k. k \<notin> set visited) (js_keys projs)")
    case None
    then have "\<forall>e\<in>set projs. map_of snap (fst e) \<noteq> None"
      using "1.prems" by (auto simp: find_None_iff)
    then show ?thesis using forin_done [OF None] by simp
  next
    case (Some k)
    let ?p' = "removeProjectile_body snap k projs"
    have inv: "\<forall>k'\<in>set (visited @ [k]). k' \<in> set (js_keys ?p') \<longrightarrow> map_of snap k' \<noteq> None"
      using "1.prems" by (auto simp: removeProjectile_body_def AList.delete_eq)
    have "filter (\<lambda>e. map_of snap (fst e) \<noteq> None) ?p' = filter (\<lambda>e. map_of snap (fst e) \<noteq> None) projs"
      by (auto simp: removeProjectile_body_def AList.delete_eq filter_filter intro: filter_cong)
    then show ?thesis using "1.IH" [OF Some inv] forin_step [OF Some, of snap] by simp
  qed
qed

subsection \<open>Properties of the live loop\<close>

text \<open>The \<open>for-in\<close> loop of lines 50--54 terminates on the live object
  it deletes from, after exactly one iteration per key the object had when the
  loop started, visiting the keys in insertion order: a deletion never makes it
  skip or repeat a key.\<close>

lemma forin_removeProjectiles_visits_each_key_once:
  assumes "js_wf projs"
  shows "fst (forin_removeProjectiles snap [] projs) = js_keys projs"
  using forin_visits [OF assms, of snap "[]"] by simp

text \<open>Running the removal loop on the live object leaves exactly the
  object the model of the handler computes by iterating over the keys taken
  before the loop: the model's \<^const>\<open>removeProjectiles_loop\<close> is equivalent
  to the JavaScript iteration it stands for.\<close>

lemma forin_removeProjectiles_eq_model:
  "snd (forin_removeProjectiles snap [] projs) = removeProjectiles_loop snap (js_keys projs) projs"
  using forin_result [of "[]" projs snap] by (simp add: removeProjectiles_all)

end
