(* ===== verification/Render.thy ===== *)
theory Render
  imports Client
begin

text \<open>
  The drawing half of the render loop \<open>animate\<close> (lines 147--170).  A frame
  clears the canvas with \<open>c.clearRect(0, 0, canvas.width, canvas.height)\<close>
  (line 149), then runs \<open>for (const id in frontEndPlayers)\<close>, which moves each
  player half-way to its target and calls \<open>frontEndPlayer.draw()\<close> on the
  moved object (lines 151--163), then \<open>for (const id in frontEndProjectiles)\<close>,
  which calls \<open>draw()\<close> on each projectile (lines 165--168).  The calls a frame
  makes on the canvas are its observable output, a list of \<open>draw_call\<close>s;
  the pixels a \<open>draw()\<close> method paints are fixed by the \<open>Player\<close> and
  \<open>Projectile\<close> classes outside \<open>src/\<close>, so a call records the object it is
  made on.  \<open>animate_frame\<close> returns the state after the frame with that
  output; the state part is the \<open>animate\<close> the client model uses.

  \<open>clear_covers\<close> is the part of the Canvas API the clear relies on: a
  \<open>clearRect(x, y, w, h)\<close> clears the rectangle mapped by the context's
  transformation, here the scale \<open>c.scale(devicePixelRatio,
  devicePixelRatio)\<close> set once at line 18.
\<close>

datatype draw_call =
    ClearRect real real real real
  | DrawPlayer ident player
  | DrawProjectile ident projectile

text \<open>Lines 151--163.  The body only rewrites the entry of the key it visits, so
  the live \<open>for-in\<close> visits the keys present when the loop starts, as the list
  \<open>ks\<close> does.  \<open>frontEndPlayers[id].x += ...\<close> is \<^const>\<open>AList.map_entry\<close>;
  \<open>frontEndPlayer\<close> is the same object, drawn after the move.\<close>

fun animate_players_loop :: "ident list \<Rightarrow> player js_object \<Rightarrow> player js_object \<times> draw_call list" where
  "animate_players_loop [] ps = (ps, [])"
| "animate_players_loop (k # ks) ps =
     (let ps1 = AList.map_entry k interpolate ps;
          r = animate_players_loop ks ps1
      in (fst r, (case map_of ps1 k of None \<Rightarrow> [] | Some p \<Rightarrow> [DrawPlayer k p]) @ snd r))"

text \<open>Lines 165--168.\<close>

fun draw_projectiles_loop :: "ident list \<Rightarrow> projectile js_object \<Rightarrow> draw_call list" where
  "draw_projectiles_loop [] prs = []"
| "draw_projectiles_loop (k # ks) prs =
     (case map_of prs k of None \<Rightarrow> [] | Some pr \<Rightarrow> [DrawProjectile k pr]) @ draw_projectiles_loop ks prs"

text \<open>Lines 147--170: one frame, its new state and its canvas calls.\<close>

definition animate_frame :: "client \<Rightarrow> client \<times> draw_call list" where
  "animate_frame s =
     (let cv = canvas_setup (devicePixelRatio s);
          r = animate_players_loop (js_keys (frontEndPlayers s)) (frontEndPlayers s)
      in (s\<lparr>frontEndPlayers := fst r\<rparr>,
          ClearRect 0 0 (canvas_width cv) (canvas_height cv) # snd r @
          draw_projectiles_loop (js_keys (frontEndProjectiles s)) (frontEndProjectiles s)))"

text \<open>The Canvas API: \<open>clearRect(x, y, w, h)\<close> under the context scale
  \<open>(sx, sy)\<close> clears the device pixels \<open>[sx x, sx (x + w)] \<times> [sy y, sy (y + h)]\<close>;
  it clears the whole canvas when that rectangle contains
  \<open>[0, canvas.width] \<times> [0, canvas.height]\<close>.\<close>

definition clear_covers :: "canvas \<Rightarrow> draw_call \<Rightarrow> bool" where
  "clear_covers cv d =
     (case d of
        ClearRect x y w h \<Rightarrow>
          fst (ctx_scale cv) * x \<le> 0 \<and> snd (ctx_scale cv) * y \<le> 0 \<and>
          canvas_width cv \<le> fst (ctx_scale cv) * (x + w) \<and> canvas_height cv \<le> snd (ctx_scale cv) * (y + h)
      | _ \<Rightarrow> False)"

subsection \<open>The loops on a well-formed store\<close>

lemma ctx_scale_setup: "ctx_scale (canvas_setup d) = (d, d)"
  by (simp add: canvas_setup_def)

lemma map_entry_append:
  "k \<notin> fst ` set xs \<Longrightarrow> AList.map_entry k f (xs @ (k, v) # ys) = xs @ (k, f v) # ys"
  by (induction xs) auto

abbreviation interpolated :: "player js_object \<Rightarrow> player js_object" where
  "interpolated ps \<equiv> map (\<lambda>(k, p). (k, interpolate p)) ps"

text \<open>After the visited prefix \<open>pre\<close> the store holds its moved entries and the
  rest unchanged; the loop moves and draws the rest in order.\<close>

lemma animate_players_loop_suffix:
  "distinct (map fst (pre @ post)) \<Longrightarrow>
   animate_players_loop (map fst post) (interpolated pre @ post) =
     (interpolated (pre @ post), map (\<lambda>(k, p). DrawPlayer k (interpolate p)) post)"
proof (induction post arbitrary: pre)
  case Nil
  then show ?case by simp
next
  case (Cons e post)
  obtain k p where e: "e = (k, p)" by fastforce
  have k: "k \<notin> fst ` set (interpolated pre)" using Cons.prems e by (auto simp: image_iff)
  have ps1: "AList.map_entry k interpolate (interpolated pre @ (k, p) # post) =
             interpolated (pre @ [(k, p)]) @ post"
    using map_entry_append [OF k] by simp
  have "map_of (interpolated pre) k = None" using k by (simp add: map_of_eq_None_iff)
  then have "map_of (interpolated (pre @ [(k, p)]) @ post) k = Some (interpolate p)"
    by (simp add: map_add_def)
  then show ?case using Cons.IH [of "pre @ [(k, p)]"] Cons.prems ps1 e by simp
qed

lemma animate_players_loop_all:
  "js_wf ps \<Longrightarrow>
   animate_players_loop (js_keys ps) ps = (interpolated ps, map (\<lambda>(k, p). DrawPlayer k (interpolate p)) ps)"
  using animate_players_loop_suffix [of "[]" ps] by simp

lemma draw_projectiles_loop_entries:
  "\<forall>(k, pr)\<in>set xs. map_of prs k = Some pr \<Longrightarrow>
   draw_projectiles_loop (map fst xs) prs = map (\<lambda>(k, pr). DrawProjectile k pr) xs"
  by (induction xs) auto

lemma draw_projectiles_loop_all:
  "js_wf prs \<Longrightarrow> draw_projectiles_loop (js_keys prs) prs = map (\<lambda>(k, pr). DrawProjectile k pr) prs"
  using draw_projectiles_loop_entries [of prs prs] by (simp add: case_prod_beta)

text \<open>On well-formed stores the frame is \<^const>\<open>animate\<close> with the calls made in
  store order.\<close>

lemma animate_frame_wf:
  assumes "js_wf (frontEndPlayers s)" "js_wf (frontEndProjectiles s)"
  shows "animate_frame s =
           (animate s, ClearRect 0 0 (canvas_width (canvas_setup (devicePixelRatio s)))
                          (canvas_height (canvas_setup (devicePixelRatio s))) #
                       map (\<lambda>(k, p). DrawPlayer k p) (frontEndPlayers (animate s)) @
                       map (\<lambda>(k, pr). DrawProjectile k pr) (frontEndProjectiles s))"
  using animate_players_loop_all [OF assms(1)] draw_projectiles_loop_all [OF assms(2)]
  by (simp add: animate_frame_def animate_def Let_def comp_def case_prod_beta)

subsection \<open>Properties of a frame\<close>

text \<open>C17. In every reachable state a display frame leaves the state
  \<^const>\<open>animate\<close> computes, and makes exactly these canvas calls: one
  \<open>clearRect(0, 0, canvas.width, canvas.height)\<close>, then one \<open>draw()\<close> per
  stored player, in insertion order, on the player already moved this frame,
  then one \<open>draw()\<close> per stored projectile, in insertion order, at its stored
  position.\<close>

theorem animate_frame_draws:
  assumes "reachable me r s"
  shows "animate_frame s =
           (animate s, ClearRect 0 0 (canvas_width (canvas_setup (devicePixelRatio s)))
                          (canvas_height (canvas_setup (devicePixelRatio s))) #
                       map (\<lambda>(k, p). DrawPlayer k p) (frontEndPlayers (animate s)) @
                       map (\<lambda>(k, pr). DrawProjectile k pr) (frontEndProjectiles s))"
  using reachable_client_inv [OF assms]
  by (intro animate_frame_wf) (simp_all add: client_inv_def players_inv_def)

theorem animate_frame_draws_witness:
  "reachable ''me'' None ((client_init None)\<lparr>frontEndPlayers := [(''me'', Player_new 50 50 10 ''red'' ''ann'')],
        playerLabels := [\<lparr>lbl_id = ''me'', lbl_username = ''ann'', lbl_score = 0\<rparr>]\<rparr>) \<and>
   snd (animate_frame ((client_init None)\<lparr>frontEndPlayers := [(''me'', Player_new 50 50 10 ''red'' ''ann'')],
        playerLabels := [\<lparr>lbl_id = ''me'', lbl_username = ''ann'', lbl_score = 0\<rparr>]\<rparr>)) =
     [ClearRect 0 0 1024 576, DrawPlayer ''me'' (Player_new 50 50 10 ''red'' ''ann'')]"
  using first_join_reachable animate_frame_draws [OF first_join_reachable]
  by (simp add: animate_def interpolate_def Player_new_def client_init_def canvas_setup_def pixel_ratio_def
      reflect_dimension_def js_ToUint32_def)

text \<open>C16. The clear of line 149 is issued in the context scaled by the device
  ratio at line 18, with the backing-store size that already includes the ratio.
  In every reachable state whose canvas is not empty, it clears the whole canvas
  exactly when the ratio is at least 1: on a page whose ratio is below 1 (a
  zoomed-out page) only the top-left part of the canvas is cleared each frame,
  and what earlier frames drew elsewhere stays on the screen.\<close>

theorem frame_clears_canvas_iff:
  assumes "reachable me r s" "0 < canvas_width (canvas_setup (devicePixelRatio s))"
  shows "clear_covers (canvas_setup (devicePixelRatio s)) (hd (snd (animate_frame s))) \<longleftrightarrow>
         1 \<le> devicePixelRatio s"
proof -
  let ?d = "devicePixelRatio s"
  let ?W = "canvas_width (canvas_setup ?d)" and ?H = "canvas_height (canvas_setup ?d)"
  have "hd (snd (animate_frame s)) = ClearRect 0 0 ?W ?H"
    by (simp add: animate_frame_def Let_def)
  moreover have "?W \<le> ?d * ?W \<longleftrightarrow> 1 \<le> ?d" using assms(2) by (simp add: mult_le_cancel_right1)
  moreover have "0 \<le> ?H" by (simp add: canvas_setup_def)
  then have "1 \<le> ?d \<Longrightarrow> ?H \<le> ?d * ?H" by (simp add: mult_le_cancel_right1)
  ultimately show ?thesis by (auto simp: clear_covers_def ctx_scale_setup)
qed

theorem frame_clears_canvas_iff_witness:
  "reachable ''me'' (Some (1 / 2)) (client_init (Some (1 / 2))) \<and>
   0 < canvas_width (canvas_setup (devicePixelRatio (client_init (Some (1 / 2))))) \<and>
   \<not> clear_covers (canvas_setup (devicePixelRatio (client_init (Some (1 / 2)))))
       (hd (snd (animate_frame (client_init (Some (1 / 2))))))"
proof -
  have r: "reachable ''me'' (Some (1 / 2)) (client_init (Some (1 / 2)))" by (rule reachable.init)
  have d: "0 < canvas_width (canvas_setup (devicePixelRatio (client_init (Some (1 / 2)))))"
    by (simp add: client_init_def pixel_ratio_def canvas_setup_def reflect_dimension_def js_ToUint32_def)
  show ?thesis using r d frame_clears_canvas_iff [OF r d] by (simp add: client_init_def pixel_ratio_def)
qed

end
