(* ===== verification/Spec2Isabelle.thy ===== *)
theory Spec2Isabelle
  imports System ForIn Render
begin

text \<open>
  \<^bold>\<open>A verification model of the multiplayer client \<open>src/public/js/frontend.js\<close>.\<close>

  \<^emph>\<open>The program.\<close>  The browser client of a socket.io game keeps a local view
  of the server's simulation.  Its module-level state is two entity stores
  (\<open>frontEndPlayers\<close>, \<open>frontEndProjectiles\<close>), the scoreboard rows in the DOM,
  the \<open>keys\<close> table, the pending-input log \<open>playerInputs\<close> and the counter
  \<open>sequenceNumber\<close>.  Callbacks mutate it, one at a time on one thread:
  \<^item> \<open>updatePlayers\<close> (lines 58--144): the snapshot diff for players; creates,
    updates and deletes players and their scoreboard rows, sets interpolation
    targets and reconciles the local player's prediction against the server
    (lines 112--127);
  \<^item> \<open>updateProjectiles\<close> (lines 30--55): the snapshot diff for projectiles,
    with dead reckoning by the snapshot's velocity;
  \<^item> \<open>animate\<close> (lines 147--170): per display frame, every player moves half
    the remaining distance to its target;
  \<^item> the 15 ms interval (lines 200--224): one logged input and one \<open>keydown\<close>
    message per held movement key, numbered by \<open>sequenceNumber\<close>;
  \<^item> the \<open>keydown\<close>/\<open>keyup\<close> listeners (lines 227--270), gated on the local
    player being in the store, and the username form's \<open>submit\<close> (lines 273--282).

  \<^emph>\<open>The theories.\<close>
  \<^item> \<open>Prelude\<close>: JavaScript objects as association lists (\<open>obj[k]\<close> is
    \<^const>\<open>map_of\<close>, assignment \<^const>\<open>AList.update\<close>, \<open>delete\<close>
    \<^const>\<open>AList.delete\<close>, \<open>for-in\<close> the key list), the error type, shared
    list and map lemmas.
  \<^item> \<open>Entities\<close>: the \<open>Player\<close> and \<open>Projectile\<close> objects and the server
    payloads as records.  The two classes live outside \<open>src/\<close>; their
    constructors are modelled from the fields the calls in \<open>frontend.js\<close> pass.
  \<^item> \<open>Reconcile\<close>: \<open>findIndex\<close>, \<open>splice\<close>, the trim of the pending log
    and the replay (\<^const>\<open>reconcile\<close>), with their specification: the
    acknowledged prefix is dropped exactly and the rest replayed in order.
  \<^item> \<open>JsLib\<close>: the built-ins the scoreboard relies on: the decimal rendering
    of a score into \<open>data-score\<close> (\<^const>\<open>string_of_int\<close>), \<open>Number\<close>
    reading it back (\<^const>\<open>js_Number\<close>) and \<open>Array.prototype.sort\<close> with
    a comparator (\<^const>\<open>js_sort\<close>); \<open>Number\<close> reads back every
    integer score rendered into the attribute.
  \<^item> \<open>Scoreboard\<close>: the rows as a list; append, rewrite, remove, and the
    re-sort as \<open>childDivs.sort\<close> with the code's comparator
    \<^const>\<open>score_cmp\<close> over the attribute strings, proved to be exactly the
    stable sort by non-increasing score; \<open>querySelector\<close> returning
    \<open>null\<close> is a \<^const>\<open>TypeError\<close>.
  \<^item> \<open>State\<close>: the client record, the canvas set-up of lines 12--23
    (\<^const>\<open>canvas_setup\<close>, with the integer conversion of an assignment
    to \<open>canvas.width\<close> and \<open>canvas.height\<close>), the initial state,
    exception propagation.
  \<^item> \<open>Players\<close>: \<^const>\<open>updatePlayers\<close>, its two loops, the invariant
    \<^const>\<open>players_inv\<close> (one row per stored player) and that the handler
    returns, keeps it, and leaves exactly the snapshot's ids in the store;
    the row of each snapshot player shows its username and score, and the rows
    end sorted when no player joins in the message.  A snapshot without the
    local player removes it and its row and shows the form again; the pending
    log outlives that removal and is replayed once the player rejoins; the row
    of a joining player is appended after the sort, so the rows can end out
    of order.
  \<^item> \<open>Projectiles\<close>: \<^const>\<open>updateProjectiles\<close> and the lookup after it.
  \<^item> \<open>ForIn\<close>: the removal loop of lines 50--54 run on the live object it
    deletes from, with ECMAScript's enumeration order
    (\<^const>\<open>forin_removeProjectiles\<close>, a \<^theory_text>\<open>function\<close> with a
    termination proof by the number of unvisited keys); it visits each key once,
    in order, and equals the model's loop over the keys taken beforehand.
  \<^item> \<open>Animate\<close>: \<^const>\<open>animate\<close> and the self-rescheduling loop
    \<^const>\<open>animation_frames\<close>; the gap halves each frame, never overshoots,
    and tends to zero.
  \<^item> \<open>Input\<close>: \<^const>\<open>input_tick\<close>, the key listeners and the submit
    handler; what one tick logs and sends, with the displacement of each key.
  \<^item> \<open>Client\<close>: the event type, \<^const>\<open>client_step\<close>, runs, the
    reachable states and the client invariant \<^const>\<open>client_inv\<close>, proved
    by rule induction over \<^const>\<open>reachable\<close>; the wire contract
    \<^const>\<open>wire_inv\<close>: the \<open>keydown\<close> messages sent are numbered
    \<open>1, 2, ..., sequenceNumber\<close> in order and each pending input was announced
    with its number and key; a key held when the local player is removed stays
    held, and the interval keeps sending it.
  \<^item> \<open>Prediction\<close>: a model of the server's side of the protocol (spec
    sections 4.2 and 6): \<^const>\<open>announced\<close> inputs and the
    \<^const>\<open>server_position\<close> a server reports after applying those up to the
    echoed number.  The pending log is always the announced inputs above some
    acknowledgement (\<^const>\<open>pending_inv\<close>), and reconciliation refines the
    server: on a consistent acknowledgement the local target is the position
    after every announced input (\<^const>\<open>predicted_position\<close>).  An
    acknowledgement older than the last one is accepted and loses the inputs
    between the two.
  \<^item> \<open>Render\<close>: the canvas calls of a frame (\<^typ>\<open>draw_call\<close>):
    \<^const>\<open>animate_frame\<close> runs the two \<open>for-in\<close> loops of \<open>animate\<close>
    (\<^const>\<open>animate_players_loop\<close>, which moves each player with
    \<^const>\<open>AList.map_entry\<close> and draws the moved object, and
    \<^const>\<open>draw_projectiles_loop\<close>) after the \<open>clearRect\<close>; in every
    reachable state its state is \<^const>\<open>animate\<close> and its calls are one clear
    and one draw per stored entity in store order.  With the Canvas API's
    \<open>clearRect\<close> under the context scale (\<^const>\<open>clear_covers\<close>) the
    clear covers the canvas exactly when the device ratio is at least 1, on
    every canvas of positive width.
  \<^item> \<open>System\<close>: the client composed with a model of the server over the
    socket (record \<^typ>\<open>system\<close>, step relation \<^const>\<open>sys_reachable\<close>):
    the transport delivers each channel's messages reliably, in order and at
    least once (spec Non-goals and section 6); the server reads the client's
    \<open>sent\<close> list in order, applying each \<open>keydown\<close>
    (\<^const>\<open>server_recv\<close>), and queues \<open>updatePlayers\<close> snapshots
    (\<^const>\<open>server_snapshot\<close>) on a FIFO channel whose head the client
    handles next, possibly twice, interleaved freely with the client's local
    events.  The invariants \<^const>\<open>server_inv\<close> and
    \<^const>\<open>channel_inv\<close>, proved by rule induction, give that the server
    computes \<^const>\<open>server_position\<close>, that every snapshot the client
    handles meets the hypotheses of the refinement theorem of \<open>Prediction\<close>
    (under this transport reconciliation always sets the local target to the
    position after every input sent), that the acknowledgements it receives
    never decrease and never fall outside the pending log (the mis-trimming
    case of spec 4.3 cannot arise, a repeated acknowledgement is handled
    exactly), and that once the inputs stop the client converges to the server:
    the next snapshot empties the pending log.  A duplicated \<open>keydown\<close>
    applied twice (\<^const>\<open>server_recv_dup\<close>) makes the client adopt the
    doubled move undetected.

  \<^emph>\<open>Modelling choices.\<close>  JavaScript numbers are modelled as \<^typ>\<open>real\<close>
  for coordinates (exact arithmetic: floating-point rounding is not modelled), as
  \<^typ>\<open>nat\<close> for sequence numbers (the counter only increments; it would
  lose precision past \<open>2^53\<close>, some million years of input at 15 ms a tick)
  and as \<^typ>\<open>int\<close> for scores.  \<open>Number\<close> is modelled on the strings of
  an optional sign and decimal digits, the only strings the score attribute
  holds.  Payloads are typed records, so a malformed message (a missing field)
  is outside the model.  The socket id is a parameter \<open>me\<close>; reconnection
  under a new id is not modelled.  The canvas is a function of the device ratio,
  since it is set once and never changed; its backing size is the integer the
  browser stores on assignment (\<^const>\<open>js_ToUint32\<close>, then HTML's reflection
  of an \<open>unsigned long\<close>, \<^const>\<open>reflect_dimension\<close>), so a ratio of 1.1
  gives a width of 1126, not 1126.4, and a ratio small enough to give 0 leaves
  nothing to clear.

  \<^emph>\<open>Not modelled.\<close>  Acquiring the DOM elements and the socket (lines 1--9)
  is a lookup with no state of its own.  The pixels a \<open>draw()\<close> paints belong
  to the \<open>Player\<close> and \<open>Projectile\<close> classes outside \<open>src/\<close>: a frame's
  output records which object each call is made on.  The HTML text of a row
  beyond the id, username and score it shows is not modelled, and the unescaped
  username inserted with \<open>innerHTML\<close> is outside the model.  The socket.io
  transport is a library: its deliveries are the events of a run and its
  emissions the list \<open>sent\<close>; in \<open>System\<close> it is an ordered, reliable,
  at-least-once queue per direction.  Duplicated snapshots are steps of
  \<^const>\<open>sys_reachable\<close>; a duplicated \<open>keydown\<close> is the separate step
  \<^const>\<open>server_recv_dup\<close>, since a server that applies it moves the player
  twice and the invariants of the composed system assume each input is applied
  once.  The server is modelled only through the contract the client relies on:
  it moves the local player by each \<open>keydown\<close> it reads and echoes the last
  number; other players, projectiles and collisions on the server side are
  arbitrary entries of a snapshot.  Disconnection, reconnection under a new id
  and the teardown the specification asks for (section 5) have no code in
  \<open>frontend.js\<close>.

  \<^emph>\<open>Termination and fuel.\<close>  Every loop of the client runs over a finite key
  list or, for the live \<open>for-in\<close>, a measure that each iteration decreases; so
  every handler is a total function and no fuel is needed.  The render loop
  itself never ends, by design of the code: \<^const>\<open>animation_frames\<close> runs it
  for any number of frames.
\<close>

end
